theory Spec2Isabelle
  imports Complex_Main "HOL-Library.Word"
begin

section \<open>Crop water stress sensor: the sketch \<open>CropWaterStressSensor_v001.ino\<close>\<close>

text \<open>
  The sketch samples a thermal camera every 15 minutes, computes the crop water
  stress index (cwsi) of the frame, appends one line to \<open>/datalog.csv\<close>, lights a
  three-colour indicator, rebuilds the 14-day history array \<open>pastArray\<close> from
  \<open>/dailylog.csv\<close>, fits a regression line to derive a trend and finally calls
  \<open>get_daily_cwsi_mean\<close>, which averages the readings of the day and may append a
  line to \<open>/dailylog.csv\<close>.

  The embedding follows the sketch function by function. Screen drawing is not
  modelled; of the serial console the model keeps the frame errors only.
\<close>

subsection \<open>Values of type \<open>float\<close>\<close>

text \<open>
  A C \<open>float\<close> is an IEEE 754 binary32 number: a finite value, an infinity or a
  NaN. A finite value is modelled by the real number it denotes, and every arithmetic
  operation rounds its exact result to the nearest binary32 value, ties to even. The
  sign of a zero is not modelled, and each operation is rounded on its own (no fused
  multiply-add).
\<close>

datatype fval = Fin real | PInf | NInf | NaN

text \<open>The infinity of a sign: \<open>True\<close> for the positive one.\<close>

fun signed_inf :: "bool \<Rightarrow> fval" where
  "signed_inf True = PInf"
| "signed_inf False = NInf"

text \<open>
  Rounding to a binary format with \<open>t\<close> fraction bits whose normal numbers have the
  exponents \<open>-lo\<close> to \<open>hi\<close>. \<open>exp_up\<close> and \<open>exp_down\<close> search the exponent of a
  magnitude \<open>a\<close>, upwards from 1 and downwards from 1; \<open>ulp_of\<close> is the distance
  between neighbouring values of the format at that magnitude (below the least normal
  number the distance stays that of the subnormal numbers); \<open>round_even\<close> rounds to
  the nearest integer, a tie to the even one, and \<open>round_ulp\<close> to the nearest
  multiple of \<open>u\<close>. A rounded magnitude of \<open>2 ^ (hi + 1)\<close> or more is an
  overflow and gives the infinity of the sign of \<open>x\<close>.
\<close>

function exp_up :: "nat \<Rightarrow> real \<Rightarrow> nat \<Rightarrow> nat" where
  "exp_up hi a k = (if k < hi \<and> 2 ^ (k + 1) \<le> a then exp_up hi a (k + 1) else k)"
  by pat_completeness auto
termination
  by (relation "measure (\<lambda>(hi, a, k). hi - k)") auto

function exp_down :: "nat \<Rightarrow> real \<Rightarrow> nat \<Rightarrow> nat" where
  "exp_down lo a k = (if k < lo \<and> a < 1 / 2 ^ k then exp_down lo a (k + 1) else k)"
  by pat_completeness auto
termination
  by (relation "measure (\<lambda>(lo, a, k). lo - k)") auto

declare exp_up.simps [simp del] exp_down.simps [simp del]

definition ulp_of :: "nat \<Rightarrow> nat \<Rightarrow> nat \<Rightarrow> real \<Rightarrow> real" where
  "ulp_of t lo hi a =
     (if 1 \<le> a then 2 ^ exp_up hi a 0 / 2 ^ t else 1 / (2 ^ exp_down lo a 0 * 2 ^ t))"

definition round_even :: "real \<Rightarrow> int" where
  "round_even q =
     (let f = \<lfloor>q\<rfloor>; d = q - of_int f
      in if d < 1 / 2 then f else if 1 / 2 < d then f + 1 else if even f then f else f + 1)"

definition round_ulp :: "real \<Rightarrow> real \<Rightarrow> real" where
  "round_ulp u x = of_int (round_even (x / u)) * u"

definition overflow :: "nat \<Rightarrow> real \<Rightarrow> real \<Rightarrow> fval" where
  "overflow hi x r = (if 2 ^ (hi + 1) \<le> \<bar>r\<bar> then signed_inf (0 < x) else Fin r)"

definition round_bin :: "nat \<Rightarrow> nat \<Rightarrow> nat \<Rightarrow> real \<Rightarrow> fval" where
  "round_bin t lo hi x =
     (if x = 0 then Fin 0 else overflow hi x (round_ulp (ulp_of t lo hi \<bar>x\<bar>) x))"

text \<open>The formats of \<open>float\<close> (binary32) and \<open>double\<close> (binary64).\<close>

definition round32 :: "real \<Rightarrow> fval" where
  "round32 = round_bin 23 126 127"

definition round64 :: "real \<Rightarrow> fval" where
  "round64 = round_bin 52 1022 1023"

text \<open>The real numbers that are values of type \<open>float\<close>.\<close>

definition is_float32 :: "real \<Rightarrow> bool" where
  "is_float32 x = (round32 x = Fin x)"


fun f_neg :: "fval \<Rightarrow> fval" where
  "f_neg (Fin a) = Fin (- a)"
| "f_neg PInf = NInf"
| "f_neg NInf = PInf"
| "f_neg NaN = NaN"

fun f_add :: "fval \<Rightarrow> fval \<Rightarrow> fval" where
  "f_add (Fin a) (Fin b) = round32 (a + b)"
| "f_add NaN _ = NaN"
| "f_add _ NaN = NaN"
| "f_add PInf NInf = NaN"
| "f_add NInf PInf = NaN"
| "f_add PInf _ = PInf"
| "f_add _ PInf = PInf"
| "f_add NInf _ = NInf"
| "f_add _ NInf = NInf"

definition f_sub :: "fval \<Rightarrow> fval \<Rightarrow> fval" where
  "f_sub a b = f_add a (f_neg b)"

fun f_mul :: "fval \<Rightarrow> fval \<Rightarrow> fval" where
  "f_mul (Fin a) (Fin b) = round32 (a * b)"
| "f_mul NaN _ = NaN"
| "f_mul _ NaN = NaN"
| "f_mul (Fin a) PInf = (if a = 0 then NaN else signed_inf (0 < a))"
| "f_mul (Fin a) NInf = (if a = 0 then NaN else signed_inf (a < 0))"
| "f_mul PInf (Fin b) = (if b = 0 then NaN else signed_inf (0 < b))"
| "f_mul NInf (Fin b) = (if b = 0 then NaN else signed_inf (b < 0))"
| "f_mul PInf PInf = PInf"
| "f_mul NInf NInf = PInf"
| "f_mul PInf NInf = NInf"
| "f_mul NInf PInf = NInf"

text \<open>
  Division. A finite value divided by zero is not an error in C: it is NaN for
  \<open>0 / 0\<close> and an infinity otherwise. (The zero is taken as \<open>+0\<close>: the
  difference of two equal floats is \<open>+0\<close>.)
\<close>

fun f_div :: "fval \<Rightarrow> fval \<Rightarrow> fval" where
  "f_div (Fin a) (Fin b) =
     (if b = 0 then (if a = 0 then NaN else signed_inf (0 < a)) else round32 (a / b))"
| "f_div NaN _ = NaN"
| "f_div _ NaN = NaN"
| "f_div (Fin a) PInf = Fin 0"
| "f_div (Fin a) NInf = Fin 0"
| "f_div PInf (Fin b) = signed_inf (0 \<le> b)"
| "f_div NInf (Fin b) = signed_inf (b < 0)"
| "f_div PInf PInf = NaN"
| "f_div PInf NInf = NaN"
| "f_div NInf PInf = NaN"
| "f_div NInf NInf = NaN"

text \<open>Comparisons: every comparison with a NaN is false.\<close>

fun f_le :: "fval \<Rightarrow> fval \<Rightarrow> bool" where
  "f_le (Fin a) (Fin b) = (a \<le> b)"
| "f_le NaN _ = False"
| "f_le _ NaN = False"
| "f_le NInf _ = True"
| "f_le _ PInf = True"
| "f_le PInf _ = False"
| "f_le _ NInf = False"

fun f_lt :: "fval \<Rightarrow> fval \<Rightarrow> bool" where
  "f_lt (Fin a) (Fin b) = (a < b)"
| "f_lt NaN _ = False"
| "f_lt _ NaN = False"
| "f_lt PInf _ = False"
| "f_lt _ NInf = False"
| "f_lt NInf _ = True"
| "f_lt _ PInf = True"

definition f_ge :: "fval \<Rightarrow> fval \<Rightarrow> bool" where
  "f_ge a b = f_le b a"

definition f_gt :: "fval \<Rightarrow> fval \<Rightarrow> bool" where
  "f_gt a b = f_lt b a"

subsection \<open>The index calculator (\<open>loop\<close>, line 314)\<close>

text \<open>
  \<^verbatim>\<open>cwsi = ( meanVal - minVal ) /  ( maxVal - minVal );\<close>
  There is no test of the divisor before or after the division. The two differences
  and the quotient are three operations on floats, each of them rounded.
\<close>

definition cwsi_calc :: "fval \<Rightarrow> fval \<Rightarrow> fval \<Rightarrow> fval" where
  "cwsi_calc meanVal minVal maxVal = f_div (f_sub meanVal minVal) (f_sub maxVal minVal)"

subsection \<open>The traffic light (\<open>loop\<close>, lines 351--366)\<close>

text \<open>
  The first branch lights pixel 0 in green, the second pixel 1 in orange, the
  last pixel 2 in red: the three severity bands. The literals \<open>0.33\<close> and \<open>0.66\<close>
  are of type \<open>double\<close>: the float \<open>cwsi\<close> is converted to \<open>double\<close>, which
  changes no value, and compared with the double nearest to the decimal number.
\<close>

datatype severity = Low | Medium | High

definition traffic_light :: "fval \<Rightarrow> severity" where
  "traffic_light cwsi =
     (if f_le cwsi (round64 (33 / 100)) then Low
      else if f_gt cwsi (round64 (33 / 100)) \<and> f_lt cwsi (round64 (66 / 100)) then Medium
      else High)"

subsection \<open>Linear regression (\<open>simpLinReg\<close>, lines 774--797)\<close>

text \<open>
  The loop accumulates four sums over \<open>i = 0, ..., n - 1\<close>; they are divided by
  \<open>n\<close> afterwards. The two results are written to \<open>lrCoef[0]\<close> and \<open>lrCoef[1]\<close>.
\<close>

record lr_sums =
  xbar :: fval
  ybar :: fval
  xybar :: fval
  xsqbar :: fval

definition lr_step :: "fval list \<Rightarrow> fval list \<Rightarrow> lr_sums \<Rightarrow> nat \<Rightarrow> lr_sums" where
  "lr_step x y s i =
     \<lparr> xbar = f_add (xbar s) (x ! i),
       ybar = f_add (ybar s) (y ! i),
       xybar = f_add (xybar s) (f_mul (x ! i) (y ! i)),
       xsqbar = f_add (xsqbar s) (f_mul (x ! i) (x ! i)) \<rparr>"

definition lr_loop :: "fval list \<Rightarrow> fval list \<Rightarrow> nat \<Rightarrow> lr_sums" where
  "lr_loop x y n =
     foldl (lr_step x y) \<lparr> xbar = Fin 0, ybar = Fin 0, xybar = Fin 0, xsqbar = Fin 0 \<rparr> [0..<n]"

text \<open>The result is the pair \<open>(lrCoef[0], lrCoef[1])\<close>.\<close>

definition simpLinReg :: "fval list \<Rightarrow> fval list \<Rightarrow> nat \<Rightarrow> fval \<times> fval" where
  "simpLinReg x y n =
     (let s = lr_loop x y n;
          xb = f_div (xbar s) (Fin (real n));
          yb = f_div (ybar s) (Fin (real n));
          xyb = f_div (xybar s) (Fin (real n));
          xsqb = f_div (xsqbar s) (Fin (real n));
          lrCoef0 = f_div (f_sub xyb (f_mul xb yb)) (f_sub xsqb (f_mul xb xb));
          lrCoef1 = f_sub yb (f_mul lrCoef0 xb)
      in (lrCoef0, lrCoef1))"

subsection \<open>The history array and the trend (\<open>loop\<close>, lines 454--464)\<close>

text \<open>
  \<^verbatim>\<open>float pastArray[14];\<close> is a global array of 14 floats. The sketch indexes it
  with values up to 14, so the memory is modelled as a store of float cells addressed
  from the start of the array: cells 0 to 13 are the array, cell 14 is the four bytes
  behind it.
\<close>

type_synonym cells = "nat \<Rightarrow> fval"

definition pastArray_len :: nat where
  "pastArray_len = 14"

definition history_window :: "cells \<Rightarrow> fval list" where
  "history_window m = map m [0..<pastArray_len]"

text \<open>
  \<^verbatim>\<open>float trend_array_y[5] = {pastArray[10],pastArray[11],pastArray[12],pastArray[13],pastArray[14]};\<close>
\<close>

definition trend_array_y_index :: "nat list" where
  "trend_array_y_index = [10, 11, 12, 13, 14]"

definition trend_array_x :: "fval list" where
  "trend_array_x = [Fin 1, Fin 2, Fin 3, Fin 4, Fin 5]"

definition trend_array_y :: "cells \<Rightarrow> fval list" where
  "trend_array_y m = map m trend_array_y_index"

text \<open>\<^verbatim>\<open>simpLinReg(trend_array_x, trend_array_y, lrCoef, 5); trend = lrCoef[1];\<close>\<close>

definition loop_trend :: "cells \<Rightarrow> fval" where
  "loop_trend m = snd (simpLinReg trend_array_x (trend_array_y m) 5)"

text \<open>The screen shows \<^verbatim>\<open>String(trend*100)+"%"\<close>.\<close>

definition trend_rendered :: "cells \<Rightarrow> fval" where
  "trend_rendered m = f_mul (loop_trend m) (Fin 100)"

text \<open>
  The specification's estimator, for comparison: the least-squares slope of the
  points \<open>(1, y\<^sub>1), ..., (5, y\<^sub>5)\<close>, where the \<open>y\<close> are the last five entries of the
  14-slot window.
\<close>

definition mean_of :: "real list \<Rightarrow> real" where
  "mean_of xs = sum_list xs / real (length xs)"

definition ols_slope :: "real list \<Rightarrow> real list \<Rightarrow> real" where
  "ols_slope xs ys =
     (mean_of (map2 (*) xs ys) - mean_of xs * mean_of ys)
       / (mean_of (map2 (*) xs xs) - mean_of xs * mean_of xs)"

definition spec_trend :: "real list \<Rightarrow> real" where
  "spec_trend window = ols_slope [1, 2, 3, 4, 5] (drop (length window - 5) window)"

subsection \<open>Library functions the sketch calls\<close>

text \<open>
  The Arduino core and the C library are not part of the sketch. The functions below
  model the calls the sketch makes, on the text they produce or consume.

  \<open>String::substring(left, right)\<close>, for \<open>left \<le> right\<close>: the characters from
  \<open>left\<close> up to, not including, \<open>right\<close>, cut at the end of the string.
\<close>

definition substring :: "nat \<Rightarrow> nat \<Rightarrow> string \<Rightarrow> string" where
  "substring left right s =
     (if length s \<le> left then [] else take (min right (length s) - left) (drop left s))"

text \<open>
  \<open>Stream::readStringUntil(terminator)\<close> reads up to the terminator or the end of
  the stream; the terminator is consumed and not returned. The pair is the string
  read and what is left in the stream.
\<close>

definition readStringUntil :: "char \<Rightarrow> string \<Rightarrow> string \<times> string" where
  "readStringUntil terminator s =
     (takeWhile (\<lambda>c. c \<noteq> terminator) s, drop 1 (dropWhile (\<lambda>c. c \<noteq> terminator) s))"

text \<open>
  The sketch reads a whole file with \<^verbatim>\<open>readStringUntil('xyz')\<close>. The parameter is a
  \<open>char\<close>: the multi-character constant \<open>'xyz'\<close> is the integer \<open>0x78797A\<close> and its
  conversion keeps the low byte \<open>0x7A\<close>, the letter z.
\<close>

definition xyz :: char where
  "xyz = CHR ''z''"

definition newline :: char where
  "newline = CHR 0x0A"

text \<open>Decimal digits.\<close>

definition digit_of :: "char \<Rightarrow> nat option" where
  "digit_of = map_of
     [(CHR ''0'', 0), (CHR ''1'', 1), (CHR ''2'', 2), (CHR ''3'', 3), (CHR ''4'', 4),
      (CHR ''5'', 5), (CHR ''6'', 6), (CHR ''7'', 7), (CHR ''8'', 8), (CHR ''9'', 9)]"

definition is_digit :: "char \<Rightarrow> bool" where
  "is_digit c = (digit_of c \<noteq> None)"

definition digit_char :: "nat \<Rightarrow> char" where
  "digit_char d = ''0123456789'' ! (d mod 10)"

definition digits_value :: "string \<Rightarrow> nat" where
  "digits_value ds = foldl (\<lambda>a c. 10 * a + (case digit_of c of Some d \<Rightarrow> d | None \<Rightarrow> 0)) 0 ds"

function dec :: "nat \<Rightarrow> string" where
  "dec n = (if n < 10 then [digit_char n] else dec (n div 10) @ [digit_char (n mod 10)])"
  by pat_completeness auto
termination
  by (relation "measure id") auto

text \<open>
  \<open>String::toFloat()\<close> is \<open>atof\<close>: leading white space, an optional sign, digits
  with an optional fraction, or \<open>nan\<close> or \<open>inf\<close>; text that does not start with
  a number gives 0. The decimal number read is rounded to a float. Exponents and
  upper-case spellings are left out: the sketch never writes them.
\<close>

definition isspace :: "char \<Rightarrow> bool" where
  "isspace c = (c \<in> set [CHR '' '', CHR 0x09, CHR 0x0A, CHR 0x0B, CHR 0x0C, CHR 0x0D])"

definition toFloat :: "string \<Rightarrow> fval" where
  "toFloat s =
     (let s1 = dropWhile isspace s;
          neg = (take 1 s1 = ''-'');
          s2 = (if take 1 s1 = ''-'' \<or> take 1 s1 = ''+'' then drop 1 s1 else s1);
          ip = takeWhile is_digit s2;
          r = dropWhile is_digit s2;
          fp = (if take 1 r = ''.'' then takeWhile is_digit (drop 1 r) else [])
      in if take 3 s2 = ''nan'' then NaN
         else if take 3 s2 = ''inf'' then (if neg then NInf else PInf)
         else if ip = [] \<and> fp = [] then Fin 0
         else round32 ((if neg then - 1 else 1)
                   * (real (digits_value ip) + real (digits_value fp) / 10 ^ length fp)))"

text \<open>
  \<open>String(float)\<close> prints two decimal places, rounding the magnitude half up
  (\<open>dtostrf\<close> adds 0.005 and truncates); NaN prints as \<open>nan\<close>, both infinities as
  \<open>inf\<close>.
\<close>

definition String_f :: "fval \<Rightarrow> string" where
  "String_f v =
     (case v of
        NaN \<Rightarrow> ''nan''
      | PInf \<Rightarrow> ''inf''
      | NInf \<Rightarrow> ''inf''
      | Fin r \<Rightarrow>
          (let h = nat \<lfloor>\<bar>r\<bar> * 100 + 1 / 2\<rfloor>
           in (if r < 0 then ''-'' else []) @ dec (h div 100) @ ''.''
                @ [digit_char (h div 10), digit_char h]))"

text \<open>
  \<open>sprintf\<close> with \<open>%0wd\<close> (for a non-negative number) and with \<open>%0ws\<close>: the text is
  filled on the left up to \<open>w\<close> characters and never cut. The filler is \<open>0\<close>; the
  theorems below use the length only.
\<close>

definition pad0 :: "nat \<Rightarrow> string \<Rightarrow> string" where
  "pad0 w s = replicate (w - length s) (CHR ''0'') @ s"

definition fmt_d :: "nat \<Rightarrow> nat \<Rightarrow> string" where
  "fmt_d w n = pad0 w (dec n)"

text \<open>\<open>std::max\<close> and \<open>std::min\<close> on floats.\<close>

definition f_max :: "fval \<Rightarrow> fval \<Rightarrow> fval" where
  "f_max a b = (if f_lt a b then b else a)"

definition f_min :: "fval \<Rightarrow> fval \<Rightarrow> fval" where
  "f_min a b = (if f_lt b a then b else a)"

subsection \<open>The clock and the SD card\<close>

text \<open>The fields of the \<open>DS1307\<close> object after \<open>rtc.getTime()\<close>; \<open>year\<close> has two digits.\<close>

record rtc_time =
  year :: nat
  month :: nat
  dayOfMonth :: nat
  hour :: nat
  minute :: nat
  second :: nat

text \<open>
  The card holds two files. \<open>mounted\<close> is the result of \<open>SD.begin()\<close>: on a card
  that is not mounted every \<open>SD.open\<close> gives an invalid file, on which writing does
  nothing and reading gives the empty string.
\<close>

record sd_card =
  mounted :: bool
  datalog :: "string option"
  dailylog :: "string option"

text \<open>\<open>SD.open(path)\<close> for reading: \<open>None\<close> is the invalid file.\<close>

definition open_read :: "sd_card \<Rightarrow> (sd_card \<Rightarrow> string option) \<Rightarrow> string option" where
  "open_read sdc file = (if mounted sdc then file sdc else None)"

definition sd_exists :: "sd_card \<Rightarrow> (sd_card \<Rightarrow> string option) \<Rightarrow> bool" where
  "sd_exists sdc file = (open_read sdc file \<noteq> None)"

text \<open>\<open>SD.open(path, FILE_APPEND)\<close>, the prints and \<open>close\<close>: the file is created when missing.\<close>

definition appended :: "string option \<Rightarrow> string \<Rightarrow> string option" where
  "appended content text = Some ((case content of None \<Rightarrow> [] | Some old \<Rightarrow> old) @ text)"

definition datalog_append :: "sd_card \<Rightarrow> string \<Rightarrow> sd_card" where
  "datalog_append sdc text =
     (if mounted sdc then sdc\<lparr>datalog := appended (datalog sdc) text\<rparr> else sdc)"

definition dailylog_append :: "sd_card \<Rightarrow> string \<Rightarrow> sd_card" where
  "dailylog_append sdc text =
     (if mounted sdc then sdc\<lparr>dailylog := appended (dailylog sdc) text\<rparr> else sdc)"

text \<open>
  The headers \<open>setup\<close> writes: \<^verbatim>\<open>file.print("datetime,Tmax,Tmin,Tmean,cwsi,\n")\<close> and
  \<^verbatim>\<open>file.println("date,mean_cwsi")\<close>; \<open>println\<close> ends the line with CR LF.
\<close>

definition datalog_header :: string where
  "datalog_header = ''datetime,Tmax,Tmin,Tmean,cwsi,'' @ [newline]"

definition dailylog_header :: string where
  "dailylog_header = ''date,mean_cwsi'' @ [CHR 0x0D, newline]"

declare dec.simps [simp del]

subsection \<open>The global variables\<close>

text \<open>
  The globals the modelled code reads or writes. \<open>pastArray\<close> is the store of cells
  described above. \<open>strip\<close> is the band the indicator shows, \<open>None\<close> before the
  first cycle. Two fields stand for what the frame loop does outside the globals:
  \<open>serial_errors\<close> are the status values printed after \<^verbatim>\<open>GetFrame Error: \<close> on the
  serial console, \<open>delay_ms\<close> is the time spent in \<open>delay\<close>, in milliseconds.
\<close>

record state =
  sd :: sd_card
  maxVal :: fval
  minVal :: fval
  meanVal :: fval
  cwsi :: fval
  mean_cwsi :: fval
  pastArray :: cells
  trend :: fval
  start_token :: int
  startMillis :: "32 word"
  strip :: "severity option"
  serial_errors :: "int list"
  delay_ms :: nat

text \<open>What one cycle receives from outside: the clock, the status of the two calls of
  \<open>MLX90640_GetFrameData\<close> and the 768 temperatures in \<open>mlx90640To\<close> after them.\<close>

record cycle_input =
  rtc :: rtc_time
  frame_status :: "int list"
  mlx90640To :: "fval list"

subsection \<open>Sampling and the event log (\<open>loop\<close>, lines 269--366)\<close>

text \<open>
  The frame loop runs twice, once for each subpage. It tests \<open>status < 0\<close> to print
  \<^verbatim>\<open>GetFrame Error: \<close> with the status and to wait two seconds; it then goes on with
  the same statements as after a good read.
\<close>

definition frame_read :: "state \<Rightarrow> int \<Rightarrow> state" where
  "frame_read st status =
     (if status < 0
      then st\<lparr> serial_errors := serial_errors st @ [status], delay_ms := delay_ms st + 2000 \<rparr>
      else st)"

definition frame_loop :: "int list \<Rightarrow> state \<Rightarrow> state" where
  "frame_loop statuses st = foldl frame_read st (take 2 statuses)"

text \<open>
  The loop over the 768 temperatures updates the three accumulators, which start from
  the values left by the previous cycle.
\<close>

definition accumulate :: "state \<Rightarrow> fval \<Rightarrow> state" where
  "accumulate st t =
     st\<lparr> maxVal := f_max t (maxVal st),
         minVal := f_min t (minVal st),
         meanVal := f_add (meanVal st) t \<rparr>"

definition read_temperatures :: "fval list \<Rightarrow> state \<Rightarrow> state" where
  "read_temperatures myArray st =
     (let st1 = foldl accumulate st myArray
      in st1\<lparr> meanVal := f_div (meanVal st1) (Fin 768) \<rparr>)"

text \<open>
  \<^verbatim>\<open>sprintf(timeStamp, "%04d.%02d.%02d-%02d:%02d:%02d", rtc.year+2000, ...)\<close> and the line
  printed to the file, field by field: the time stamp, then \<open>cwsi\<close>, \<open>maxVal\<close>,
  \<open>minVal\<close> and \<open>meanVal\<close>.
\<close>

definition timeStamp :: "rtc_time \<Rightarrow> string" where
  "timeStamp t =
     fmt_d 4 (year t + 2000) @ ''.'' @ fmt_d 2 (month t) @ ''.'' @ fmt_d 2 (dayOfMonth t)
       @ ''-'' @ fmt_d 2 (hour t) @ '':'' @ fmt_d 2 (minute t) @ '':'' @ fmt_d 2 (second t)"

record sample =
  stamp :: rtc_time
  index :: fval
  Tmax :: fval
  Tmin :: fval
  Tmean :: fval

definition datalog_line :: "sample \<Rightarrow> string" where
  "datalog_line s =
     timeStamp (stamp s) @ '','' @ pad0 4 (String_f (index s)) @ '','' @ pad0 5 (String_f (Tmax s))
       @ '','' @ pad0 5 (String_f (Tmin s)) @ '','' @ pad0 5 (String_f (Tmean s))
       @ [newline]"

definition append_sample :: "sd_card \<Rightarrow> sample \<Rightarrow> sd_card" where
  "append_sample sdc s = datalog_append sdc (datalog_line s)"

text \<open>The sample of a cycle: the clock and the four globals at the time of the write.\<close>

definition current_sample :: "rtc_time \<Rightarrow> state \<Rightarrow> sample" where
  "current_sample t st =
     \<lparr> stamp = t, index = cwsi st, Tmax = maxVal st, Tmin = minVal st, Tmean = meanVal st \<rparr>"

definition sample_and_log :: "cycle_input \<Rightarrow> state \<Rightarrow> state" where
  "sample_and_log inp st =
     (let st0 = frame_loop (frame_status inp) st;
          st1 = read_temperatures (mlx90640To inp) st0;
          st2 = st1\<lparr> cwsi := cwsi_calc (meanVal st1) (minVal st1) (maxVal st1) \<rparr>;
          st3 = st2\<lparr> sd := append_sample (sd st2) (current_sample (rtc inp) st2) \<rparr>
      in st3\<lparr> strip := Some (traffic_light (cwsi st3)) \<rparr>)"

subsection \<open>Reading one row of a file (\<open>get_cwsi_data\<close>, \<open>get_daily_cwsi_data\<close>)\<close>

text \<open>
  Both readers scan the file line by line and return a substring of the line whose
  number, counted from 0, is \<open>in_row\<close>. When no line has that number, or the file did
  not open, the function reaches its closing brace without a \<open>return\<close>: it returns
  no value, which the model writes as \<open>None\<close>.
\<close>

function row_loop :: "string \<Rightarrow> int \<Rightarrow> int \<Rightarrow> nat \<Rightarrow> nat \<Rightarrow> string option" where
  "row_loop stream line_count in_row left right =
     (if stream = [] then None
      else let (line, rest) = readStringUntil newline stream;
               line_count1 = line_count + 1
           in if line_count1 - 1 = in_row then Some (substring left right line)
              else row_loop rest line_count1 in_row left right)"
  by pat_completeness auto
termination
proof (relation "measure (\<lambda>(stream, _). length stream)", goal_cases)
  case 1
  show ?case by simp
next
  case (2 stream line_count in_row left right x line rest line_count1)
  from 2 have "rest = drop 1 (dropWhile (\<lambda>c. c \<noteq> newline) stream)"
    by (simp add: readStringUntil_def)
  moreover have "length (dropWhile (\<lambda>c. c \<noteq> newline) stream) \<le> length stream"
    by (rule length_dropWhile_le)
  ultimately have "length rest < length stream"
    using \<open>stream \<noteq> []\<close> by (cases stream) auto
  then show ?case by simp
qed

declare row_loop.simps [simp del]

definition get_cwsi_data :: "sd_card \<Rightarrow> int \<Rightarrow> string option" where
  "get_cwsi_data sdc in_row =
     (case open_read sdc datalog of
        None \<Rightarrow> None
      | Some stream \<Rightarrow> row_loop stream 0 in_row 20 24)"

definition get_daily_cwsi_data :: "sd_card \<Rightarrow> int \<Rightarrow> string option" where
  "get_daily_cwsi_data sdc in_row =
     (case open_read sdc dailylog of
        None \<Rightarrow> None
      | Some stream \<Rightarrow> row_loop stream 0 in_row 11 15)"

text \<open>
  \<open>get_first_log_date\<close> returns the first 19 characters of the second line of the
  event log. When the file has no second line, or did not open, it ends without a
  \<open>return\<close> as well.
\<close>

function first_log_loop :: "string \<Rightarrow> int \<Rightarrow> string option" where
  "first_log_loop stream line_count =
     (if stream = [] then None
      else let (line, rest) = readStringUntil newline stream;
               line_count1 = line_count + 1
           in if 2 \<le> line_count1 then Some (substring 0 19 line)
              else first_log_loop rest line_count1)"
  by pat_completeness auto
termination
proof (relation "measure (\<lambda>(stream, _). length stream)", goal_cases)
  case 1
  show ?case by simp
next
  case (2 stream line_count x line rest line_count1)
  have "length (dropWhile (\<lambda>c. c \<noteq> newline) stream) \<le> length stream"
    by (rule length_dropWhile_le)
  then have "length (snd (readStringUntil newline stream)) < length stream"
    using 2(1) by (cases stream) (auto simp: readStringUntil_def)
  moreover have "rest = snd (readStringUntil newline stream)"
    using 2(2,3) by (metis snd_conv)
  ultimately show ?case by simp
qed

declare first_log_loop.simps [simp del]

definition get_first_log_date :: "sd_card \<Rightarrow> string option" where
  "get_first_log_date sdc =
     (case open_read sdc datalog of
        None \<Rightarrow> None
      | Some stream \<Rightarrow> first_log_loop stream 0)"

text \<open>
  The caller uses the returned string. A call that returned no value leaves the
  program without a defined behaviour, and so does a write behind the end of an
  array: the model stops there with a fault.
\<close>

datatype fault = No_return_value | Buffer_overrun

subsection \<open>Counting the rows (\<open>loop\<close>, lines 400--411, and \<open>get_daily_cwsi_mean\<close>, lines 635--647)\<close>

text \<open>
  The whole file is read into a string, whose length is an \<open>unsigned int\<close> of 32 bits.
  \<^verbatim>\<open>int number_of_logs = (myFile_data.length()-31)/length_row;\<close> with \<open>length_row = 43\<close>,
  and \<^verbatim>\<open>int number_of_daily_logs = (myFile_data.length())/length_row_2;\<close> with
  \<open>length_row_2 = 15\<close>: the arithmetic is unsigned, the result is stored in an \<open>int\<close>.
\<close>

definition file_data :: "sd_card \<Rightarrow> (sd_card \<Rightarrow> string option) \<Rightarrow> string" where
  "file_data sdc file =
     (case open_read sdc file of None \<Rightarrow> [] | Some stream \<Rightarrow> fst (readStringUntil xyz stream))"

definition string_length :: "string \<Rightarrow> 32 word" where
  "string_length s = of_nat (length s)"

definition number_of_logs :: "sd_card \<Rightarrow> int" where
  "number_of_logs sdc = sint ((string_length (file_data sdc datalog) - 31) div 43)"

definition number_of_daily_logs :: "sd_card \<Rightarrow> int" where
  "number_of_daily_logs sdc = sint (string_length (file_data sdc dailylog) div 15)"

subsection \<open>The history array (\<open>loop\<close>, lines 413--443)\<close>

text \<open>
  The first loop is meant to fill the missing days: \<^verbatim>\<open>for (int i = 0; i <= missing_values; i++)\<close>
  with the body \<^verbatim>\<open>pastArray[daily_count]; daily_count++;\<close>. The first statement is an
  expression without effect, so the loop only advances \<open>daily_count\<close>.
\<close>

function fill_loop :: "int \<Rightarrow> int \<Rightarrow> int \<Rightarrow> int" where
  "fill_loop i missing_values daily_count =
     (if i \<le> missing_values then fill_loop (i + 1) missing_values (daily_count + 1)
      else daily_count)"
  by pat_completeness auto
termination
  by (relation "measure (\<lambda>(i, missing_values, _). nat (missing_values + 1 - i))") auto

declare fill_loop.simps [simp del]

text \<open>
  The second loop stores one reading per row from \<open>read_begin\<close> to
  \<open>number_of_daily_logs - 1\<close>: \<^verbatim>\<open>pastArray[daily_count] = daily_cwsi_reading; daily_count++;\<close>
\<close>

function history_loop :: "sd_card \<Rightarrow> int \<Rightarrow> int \<Rightarrow> int \<Rightarrow> cells \<Rightarrow> fault + cells" where
  "history_loop sdc i n daily_count m =
     (if i < n then
        (case get_daily_cwsi_data sdc i of
           None \<Rightarrow> Inl No_return_value
         | Some s \<Rightarrow> history_loop sdc (i + 1) n (daily_count + 1) (m(nat daily_count := toFloat s)))
      else Inr m)"
  by pat_completeness auto
termination
  by (relation "measure (\<lambda>(_, i, n, _). nat (n - i))") auto

declare history_loop.simps [simp del]

definition history_cells :: "sd_card \<Rightarrow> cells \<Rightarrow> fault + cells" where
  "history_cells sdc m =
     (let n = number_of_daily_logs sdc;
          read_begin = (if 14 \<le> n then n - 14 else 0);
          daily_count = (if n < 14 then fill_loop 0 (14 - n) 0 else 0)
      in history_loop sdc read_begin n daily_count m)"

definition history_extract :: "state \<Rightarrow> fault + state" where
  "history_extract st =
     (case history_cells (sd st) (pastArray st) of
        Inl f \<Rightarrow> Inl f
      | Inr m \<Rightarrow> Inr (st\<lparr> pastArray := m \<rparr>))"

subsection \<open>The daily mean (\<open>get_daily_cwsi_mean\<close>, lines 629--722)\<close>

text \<open>
  The loop that fills \<open>cwsi_today\<close>, one reading per row \<open>x\<close>, and the line written
  to the daily log.
\<close>

function today_loop :: "sd_card \<Rightarrow> int \<Rightarrow> int \<Rightarrow> fval list \<Rightarrow> fault + fval list" where
  "today_loop sdc x stop cwsi_today =
     (if x < stop then
        (case get_cwsi_data sdc x of
           None \<Rightarrow> Inl No_return_value
         | Some s \<Rightarrow> today_loop sdc (x + 1) stop (cwsi_today @ [toFloat s]))
      else Inr cwsi_today)"
  by pat_completeness auto
termination
  by (relation "measure (\<lambda>(_, x, stop, _). nat (stop - x))") auto

declare today_loop.simps [simp del]

definition dateStamp :: "rtc_time \<Rightarrow> string" where
  "dateStamp t = fmt_d 4 (year t + 2000) @ ''.'' @ fmt_d 2 (month t) @ ''.'' @ fmt_d 2 (dayOfMonth t)"

definition dailylog_line :: "rtc_time \<Rightarrow> fval \<Rightarrow> string" where
  "dailylog_line t mean = dateStamp t @ '','' @ pad0 4 (String_f mean) @ [newline]"

definition log_cycles_today :: "rtc_time \<Rightarrow> int" where
  "log_cycles_today t = int (hour t) * 4 + int (minute t) div 15"

text \<open>
  The function is declared \<open>float\<close> and has no \<open>return\<close> statement: every call
  ends without a return value. In the branch that writes the record,
  \<^verbatim>\<open>char timeStamp[10]; sprintf(timeStamp, "%04d.%02d.%02d", ...)\<close> writes the ten
  characters of the date and the terminating zero, eleven bytes, into an array of
  ten. The result is therefore always a fault, given with the state that the
  statements of the function have produced: the first fault on the path, and the
  globals and the card as the statements leave them when the overrun touches no other
  object.
\<close>

definition get_daily_cwsi_mean :: "rtc_time \<Rightarrow> state \<Rightarrow> fault \<times> state" where
  "get_daily_cwsi_mean t st =
     (let number_of_logs = number_of_logs (sd st);
          start_hour_log_time = 6;
          end_hour_log_time = 18;
          total_hour_log_time = end_hour_log_time - start_hour_log_time;
          begin_relevant_logs = log_cycles_today t - start_hour_log_time * 4;
          start_of_the_day = number_of_logs - log_cycles_today t
      in if 0 \<le> begin_relevant_logs then
           (let number_of_todays_relevant_logs =
                  (start_of_the_day + log_cycles_today t)
                    - (start_of_the_day + start_hour_log_time * 4)
            in if number_of_todays_relevant_logs \<le> total_hour_log_time * 4 then
                 (case today_loop (sd st) (start_of_the_day + start_hour_log_time * 4)
                         (start_of_the_day + start_hour_log_time * 4
                            + number_of_todays_relevant_logs) [] of
                    Inl f \<Rightarrow> (f, st)
                  | Inr cwsi_today \<Rightarrow>
                      (let sum_cwsi = foldl f_add (Fin 0) cwsi_today;
                           st1 = st\<lparr> mean_cwsi :=
                                   f_div sum_cwsi (Fin (real_of_int number_of_todays_relevant_logs)) \<rparr>
                       in if number_of_todays_relevant_logs = total_hour_log_time * 4 then
                            (Buffer_overrun,
                             st1\<lparr> sd := dailylog_append (sd st1)
                                             (dailylog_line t (mean_cwsi st1)) \<rparr>)
                          else (No_return_value, st1)))
               else (No_return_value, st))
         else (No_return_value, st))"

subsection \<open>\<open>setup\<close> and \<open>loop\<close>\<close>

text \<open>
  What \<open>setup\<close> finds: whether the camera answers, whether \<open>SD.begin()\<close>
  succeeds, whether \<open>SD.cardType()\<close> is \<open>CARD_NONE\<close>, and \<open>millis()\<close>.
  \<open>setup\<close> either stays in \<^verbatim>\<open>while (1);\<close> or returns. (The function is
  called \<open>setup_sketch\<close> here.)
\<close>

record boot =
  isConnected :: bool
  SD_begin :: bool
  CARD_NONE :: bool
  millis :: "32 word"

datatype setup_result = Halted | Returned state

definition period :: "32 word" where
  "period = 900000"

definition setup_sketch :: "boot \<Rightarrow> state \<Rightarrow> setup_result" where
  "setup_sketch b st =
     (if \<not> isConnected b then Halted
      else if \<not> SD_begin b then Returned st
      else let st1 = st\<lparr> sd := (sd st)\<lparr> mounted := True \<rparr> \<rparr>
           in if CARD_NONE b then Returned st1
              else if sd_exists (sd st1) datalog then Returned st1
              else let st2 = st1\<lparr> sd := (sd st1)\<lparr> datalog := Some datalog_header \<rparr> \<rparr>
                   in if sd_exists (sd st2) dailylog then Returned st2
                      else Returned (st2\<lparr> sd := (sd st2)\<lparr> dailylog := Some dailylog_header \<rparr>,
                                          startMillis := millis b + period \<rparr>))"

text \<open>
  \<^verbatim>\<open>if (currentMillis - startMillis >= period || start_token ==1)\<close>, on \<open>unsigned long\<close>
  values of 32 bits, and the body of one cycle in the order of the sketch: the sample
  and its record, \<open>get_first_log_date\<close>, the history array, the trend, the reset of
  the four variables and \<open>get_daily_cwsi_mean\<close>. A cycle that meets a fault ends
  there, with the fault and the state reached (for a fault in the history loop, the
  state before the loop). The last statement, \<^verbatim>\<open>startMillis = currentMillis;\<close>, follows
  the call of \<open>get_daily_cwsi_mean\<close>, which always ends in a fault: no path of the
  model reaches it.
\<close>

definition cycle_due :: "32 word \<Rightarrow> state \<Rightarrow> bool" where
  "cycle_due currentMillis st = (period \<le> currentMillis - startMillis st \<or> start_token st = 1)"

definition reset_variables :: "state \<Rightarrow> state" where
  "reset_variables st = st\<lparr> maxVal := Fin 0, minVal := Fin 999, meanVal := Fin 0, cwsi := Fin 999 \<rparr>"

definition cycle :: "32 word \<Rightarrow> cycle_input \<Rightarrow> state \<Rightarrow> (fault \<times> state) + state" where
  "cycle currentMillis inp st =
     (let st1 = sample_and_log inp st
      in case get_first_log_date (sd st1) of
           None \<Rightarrow> Inl (No_return_value, st1)
         | Some first_log \<Rightarrow>
             (case history_extract st1 of
                Inl f \<Rightarrow> Inl (f, st1)
              | Inr st2 \<Rightarrow>
                  Inl (get_daily_cwsi_mean (rtc inp)
                         (reset_variables (st2\<lparr> trend := loop_trend (pastArray st2) \<rparr>)))))"

definition loop :: "32 word \<Rightarrow> cycle_input \<Rightarrow> state \<Rightarrow> (fault \<times> state) + state" where
  "loop currentMillis inp st =
     (if cycle_due currentMillis st then cycle currentMillis inp (st\<lparr> start_token := 0 \<rparr>)
      else Inr st)"

text \<open>
  The Arduino core calls \<open>setup\<close> once and then \<open>loop\<close> without end, also when
  \<open>setup\<close> returned early. The globals start from zero, except \<open>start_token = 1\<close>.
\<close>

definition initial_state :: "sd_card \<Rightarrow> state" where
  "initial_state sdc =
     \<lparr> sd = sdc, maxVal = Fin 0, minVal = Fin 0, meanVal = Fin 0, cwsi = Fin 0,
       mean_cwsi = Fin 0, pastArray = (\<lambda>_. Fin 0), trend = Fin 0, start_token = 1,
       startMillis = 0, strip = None, serial_errors = [], delay_ms = 0 \<rparr>"

subsection \<open>Inputs used in the examples\<close>

text \<open>The number a finite float denotes (0 for the special values).\<close>

fun the_real :: "fval \<Rightarrow> real" where
  "the_real (Fin r) = r"
| "the_real _ = 0"

text \<open>A store in which every cell holds 0.5, and one in which every cell holds 0.\<close>

definition flat_cells :: cells where
  "flat_cells = (\<lambda>_. Fin (1 / 2))"

definition zero_cells :: cells where
  "zero_cells = (\<lambda>_. Fin 0)"

text \<open>
  A sample whose fields fill exactly their columns: a four-digit year, two digits for
  the other clock fields, at most four characters for the index and five for each
  temperature. The line of such a sample has 43 bytes.
\<close>

definition fixed_width :: "sample \<Rightarrow> bool" where
  "fixed_width s =
     (year (stamp s) + 2000 < 10000 \<and> month (stamp s) < 100 \<and> dayOfMonth (stamp s) < 100 \<and>
      hour (stamp s) < 100 \<and> minute (stamp s) < 100 \<and> second (stamp s) < 100 \<and>
      length (String_f (index s)) \<le> 4 \<and> length (String_f (Tmax s)) \<le> 5 \<and>
      length (String_f (Tmin s)) \<le> 5 \<and> length (String_f (Tmean s)) \<le> 5)"

text \<open>The card after the first \<open>setup\<close>: both files hold their header only.\<close>

definition fresh_card :: sd_card where
  "fresh_card = \<lparr> mounted = True, datalog = Some datalog_header, dailylog = Some dailylog_header \<rparr>"

text \<open>
  The event log in the shape the count relies on: the card is mounted and the file
  holds the 31 bytes of the header and \<open>k\<close> lines of 43 bytes, without the letter z.
\<close>

definition log_of_rows :: "sd_card \<Rightarrow> nat \<Rightarrow> bool" where
  "log_of_rows sdc k =
     (mounted sdc \<and>
      (case datalog sdc of
         None \<Rightarrow> False
       | Some stream \<Rightarrow> length stream = 31 + 43 * k \<and> xyz \<notin> set stream))"

text \<open>Two samples, taken a quarter of an hour apart.\<close>

definition noon :: rtc_time where
  "noon = \<lparr> year = 22, month = 8, dayOfMonth = 31, hour = 12, minute = 0, second = 0 \<rparr>"

definition sample_a :: sample where
  "sample_a = \<lparr> stamp = noon, index = Fin (45 / 100), Tmax = Fin 30, Tmin = Fin 20,
                Tmean = Fin (245 / 10) \<rparr>"

definition sample_b :: sample where
  "sample_b = \<lparr> stamp = noon\<lparr> minute := 15 \<rparr>, index = Fin (1 / 2), Tmax = Fin 31, Tmin = Fin 21,
                Tmean = Fin 26 \<rparr>"

text \<open>
  A boot at which the camera answers and \<open>SD.begin()\<close> fails, one at which the camera
  does not answer, and a card that never got mounted.
\<close>

definition unmounted_card :: sd_card where
  "unmounted_card = \<lparr> mounted = False, datalog = None, dailylog = None \<rparr>"

definition boot_without_sd :: boot where
  "boot_without_sd = \<lparr> isConnected = True, SD_begin = False, CARD_NONE = False, millis = 0 \<rparr>"

definition boot_without_camera :: boot where
  "boot_without_camera = \<lparr> isConnected = False, SD_begin = True, CARD_NONE = False, millis = 0 \<rparr>"




text \<open>
  A card whose daily log holds the header and one record, and one whose daily log
  holds the header and fourteen records with the means 0.01 to 0.14.
\<close>

definition one_day_card :: sd_card where
  "one_day_card =
     \<lparr> mounted = True, datalog = Some datalog_header,
       dailylog = Some (dailylog_header @ ''2022.08.31,0.45'' @ [newline]) \<rparr>"

definition fourteen_days_card :: sd_card where
  "fourteen_days_card =
     \<lparr> mounted = True, datalog = Some datalog_header,
       dailylog = Some (dailylog_header
         @ ''2022.08.01,0.01'' @ [newline] @ ''2022.08.02,0.02'' @ [newline]
         @ ''2022.08.03,0.03'' @ [newline] @ ''2022.08.04,0.04'' @ [newline]
         @ ''2022.08.05,0.05'' @ [newline] @ ''2022.08.06,0.06'' @ [newline]
         @ ''2022.08.07,0.07'' @ [newline] @ ''2022.08.08,0.08'' @ [newline]
         @ ''2022.08.09,0.09'' @ [newline] @ ''2022.08.10,0.10'' @ [newline]
         @ ''2022.08.11,0.11'' @ [newline] @ ''2022.08.12,0.12'' @ [newline]
         @ ''2022.08.13,0.13'' @ [newline] @ ''2022.08.14,0.14'' @ [newline]) \<rparr>"

subsection \<open>The samples of a day, counted from the event log\<close>

text \<open>
  The specification speaks of the number of samples observed inside the window from
  06:00 to 18:00 of the current day. Counted from the event log, these are the data
  rows whose time stamp carries the date of the clock and an hour from 06 to 17.
\<close>

function log_lines :: "string \<Rightarrow> string list" where
  "log_lines stream =
     (if stream = [] then []
      else fst (readStringUntil newline stream) # log_lines (snd (readStringUntil newline stream)))"
  by pat_completeness auto
termination
proof (relation "measure length", goal_cases)
  case 1
  show ?case by simp
next
  case (2 stream)
  have "length (dropWhile (\<lambda>c. c \<noteq> newline) stream) \<le> length stream"
    by (rule length_dropWhile_le)
  then have "length (snd (readStringUntil newline stream)) < length stream"
    using 2 by (cases stream) (auto simp: readStringUntil_def)
  then show ?case by simp
qed

declare log_lines.simps [simp del]

definition row_in_window :: "rtc_time \<Rightarrow> string \<Rightarrow> bool" where
  "row_in_window t line =
     (take 10 line = dateStamp t \<and> 6 \<le> digits_value (substring 11 13 line)
        \<and> digits_value (substring 11 13 line) < 18)"

definition samples_in_window :: "rtc_time \<Rightarrow> sd_card \<Rightarrow> nat" where
  "samples_in_window t sdc =
     length (filter (row_in_window t) (drop 1 (log_lines (file_data sdc datalog))))"

text \<open>
  A device that logged 48 samples on 30 August from 00:00 to 11:45, each with the
  index 0.5, was switched off and is switched on again on 31 August: the first cycle
  after the restart appends its sample, with the index 0.25, and calls
  \<open>get_daily_cwsi_mean\<close>. The card of that moment, for a restart at clock \<open>t\<close>.
\<close>

definition yesterday_sample :: "nat \<Rightarrow> sample" where
  "yesterday_sample k =
     \<lparr> stamp = \<lparr> year = 22, month = 8, dayOfMonth = 30, hour = k div 4,
                 minute = 15 * (k mod 4), second = 0 \<rparr>,
       index = Fin (1 / 2), Tmax = Fin 30, Tmin = Fin 20, Tmean = Fin 25 \<rparr>"

definition restart_sample :: "rtc_time \<Rightarrow> sample" where
  "restart_sample t =
     \<lparr> stamp = t, index = Fin (1 / 4), Tmax = Fin 30, Tmin = Fin 20, Tmean = Fin (45 / 2) \<rparr>"

definition restart_samples :: "rtc_time \<Rightarrow> sample list" where
  "restart_samples t = map yesterday_sample [0..<48] @ [restart_sample t]"

definition restart_card :: "rtc_time \<Rightarrow> sd_card" where
  "restart_card t = foldl append_sample fresh_card (restart_samples t)"

definition evening :: rtc_time where
  "evening = \<lparr> year = 22, month = 8, dayOfMonth = 31, hour = 18, minute = 5, second = 0 \<rparr>"


section \<open>Properties of the sketch\<close>

subsection \<open>Rounding\<close>

text \<open>The equations that evaluate a rounding at a given number.\<close>

lemmas float_eval = round32_def round64_def round_bin_def round_ulp_def overflow_def ulp_of_def
  round_even_def Let_def exp_up.simps exp_down.simps

text \<open>Rounding in one formula.\<close>

lemma round_bin_unfold:
  "round_bin t lo hi x =
     (let u = ulp_of t lo hi \<bar>x\<bar>;
          r = of_int (round_even (x / u)) * u
      in if 2 ^ (hi + 1) \<le> \<bar>r\<bar> then signed_inf (0 < x) else Fin r)"
proof (cases "x = 0")
  case True
  have "round_even 0 = 0"
    by (simp add: round_even_def)
  moreover have "\<not> (2::real) ^ hi \<le> 0"
    by (simp add: not_le)
  ultimately show ?thesis
    using True by (simp add: round_bin_def Let_def)
next
  case False
  then show ?thesis
    by (simp add: round_bin_def round_ulp_def overflow_def Let_def)
qed

lemma exp_up_ge: "k \<le> exp_up hi a k"
proof (induction hi a k rule: exp_up.induct)
  case (1 hi a k)
  show ?case
  proof (cases "k < hi \<and> 2 ^ (k + 1) \<le> a")
    case True
    then have "exp_up hi a k = exp_up hi a (k + 1)" by (subst exp_up.simps) simp
    then show ?thesis using 1 True by simp
  next
    case False
    then have "exp_up hi a k = k" by (subst exp_up.simps) auto
    then show ?thesis by simp
  qed
qed

lemma exp_up_le_hi: "k \<le> hi \<Longrightarrow> exp_up hi a k \<le> hi"
proof (induction hi a k rule: exp_up.induct)
  case (1 hi a k)
  show ?case
  proof (cases "k < hi \<and> 2 ^ (k + 1) \<le> a")
    case True
    then have "exp_up hi a k = exp_up hi a (k + 1)" by (subst exp_up.simps) simp
    then show ?thesis using 1 True by simp
  next
    case False
    then have "exp_up hi a k = k" by (subst exp_up.simps) auto
    then show ?thesis using 1(2) by simp
  qed
qed

lemma exp_up_below: "2 ^ k \<le> a \<Longrightarrow> 2 ^ exp_up hi a k \<le> a"
proof (induction hi a k rule: exp_up.induct)
  case (1 hi a k)
  show ?case
  proof (cases "k < hi \<and> 2 ^ (k + 1) \<le> a")
    case True
    then have "exp_up hi a k = exp_up hi a (k + 1)" by (subst exp_up.simps) simp
    then show ?thesis using 1 True by simp
  next
    case False
    then have "exp_up hi a k = k" by (subst exp_up.simps) auto
    then show ?thesis using 1(2) by simp
  qed
qed

lemma exp_down_ge: "k \<le> exp_down lo a k"
proof (induction lo a k rule: exp_down.induct)
  case (1 lo a k)
  show ?case
  proof (cases "k < lo \<and> a < 1 / 2 ^ k")
    case True
    then have "exp_down lo a k = exp_down lo a (k + 1)" by (subst exp_down.simps) simp
    then show ?thesis using 1 True by simp
  next
    case False
    then have "exp_down lo a k = k" by (subst exp_down.simps) auto
    then show ?thesis by simp
  qed
qed

lemma exp_down_le_lo: "k \<le> lo \<Longrightarrow> exp_down lo a k \<le> lo"
proof (induction lo a k rule: exp_down.induct)
  case (1 lo a k)
  show ?case
  proof (cases "k < lo \<and> a < 1 / 2 ^ k")
    case True
    then have "exp_down lo a k = exp_down lo a (k + 1)" by (subst exp_down.simps) simp
    then show ?thesis using 1 True by simp
  next
    case False
    then have "exp_down lo a k = k" by (subst exp_down.simps) auto
    then show ?thesis using 1(2) by simp
  qed
qed

lemma exp_down_below: "exp_down lo a k < lo \<Longrightarrow> 1 / 2 ^ exp_down lo a k \<le> a"
proof (induction lo a k rule: exp_down.induct)
  case (1 lo a k)
  show ?case
  proof (cases "k < lo \<and> a < 1 / 2 ^ k")
    case True
    then have "exp_down lo a k = exp_down lo a (k + 1)" by (subst exp_down.simps) simp
    then show ?thesis using 1 True by simp
  next
    case False
    then have eq: "exp_down lo a k = k" by (subst exp_down.simps) auto
    then have "k < lo" using 1(2) by simp
    then have "\<not> a < 1 / 2 ^ k" using False by simp
    then show ?thesis using eq by simp
  qed
qed

lemma ulp_of_pos: "0 < ulp_of t lo hi a"
  by (simp add: ulp_of_def)

lemma round_even_of_int: "round_even (of_int n) = n"
  by (simp add: round_even_def)

lemma round_even_of_nat: "round_even (real n) = int n"
  using round_even_of_int [of "int n"] by simp



lemma pow2_le_nat: "(2::real) ^ a \<le> real n \<Longrightarrow> (2::nat) ^ a \<le> n"
proof -
  assume "(2::real) ^ a \<le> real n"
  then have "real ((2::nat) ^ a) \<le> real n" by simp
  then show ?thesis by (simp only: of_nat_le_iff)
qed

lemma ulp_divides:
  assumes "n < 2 ^ (t + 1)" and "j \<le> lo + t"
  shows "\<exists>m::nat. (real n / 2 ^ j) / ulp_of t lo hi (real n / 2 ^ j) = real m"
proof (cases "1 \<le> real n / 2 ^ j")
  case True
  define x where "x = real n / 2 ^ j"
  define k where "k = exp_up hi x 0"
  have "2 ^ k \<le> x"
    unfolding k_def using True by (intro exp_up_below) (simp add: x_def)
  then have "(2::real) ^ k * 2 ^ j \<le> real n"
    by (simp add: x_def field_simps)
  then have "(2::real) ^ (k + j) \<le> real n"
    by (simp add: power_add)
  then have "(2::nat) ^ (k + j) \<le> n"
    by (rule pow2_le_nat)
  then have "(2::nat) ^ (k + j) < 2 ^ (t + 1)"
    using assms(1) by simp
  then have "k + j < t + 1"
    by (rule power_less_imp_less_exp [rotated]) simp
  then have kj: "k + j \<le> t"
    by simp
  have "(2::real) ^ t = 2 ^ (t - (k + j)) * 2 ^ (k + j)"
    using kj by (simp flip: power_add)
  then have eq: "x / (2 ^ k / 2 ^ t) = real (n * 2 ^ (t - (k + j)))"
    by (simp add: x_def power_add field_simps)
  have "ulp_of t lo hi x = 2 ^ k / 2 ^ t"
    using True by (simp add: ulp_of_def x_def k_def)
  then have "x / ulp_of t lo hi x = real (n * 2 ^ (t - (k + j)))"
    using eq by (simp only:)
  then show ?thesis
    unfolding x_def by (rule exI)
next
  case False
  define x where "x = real n / 2 ^ j"
  define k where "k = exp_down lo x 0"
  have klo: "k \<le> lo"
    unfolding k_def by (rule exp_down_le_lo) simp
  have jk: "j \<le> k + t"
  proof (cases "k < lo")
    case True
    then have "1 / 2 ^ k \<le> x"
      unfolding k_def by (rule exp_down_below)
    then have "(2::real) ^ j \<le> real n * 2 ^ k"
      by (simp add: x_def field_simps)
    then have "(2::real) ^ j \<le> real (n * 2 ^ k)"
      by simp
    then have "(2::nat) ^ j \<le> n * 2 ^ k"
      by (rule pow2_le_nat)
    also have "\<dots> < 2 ^ (t + 1) * 2 ^ k"
      using assms(1) by simp
    finally have "(2::nat) ^ j < 2 ^ (t + 1 + k)"
      by (simp add: power_add)
    then have "j < t + 1 + k"
      by (rule power_less_imp_less_exp [rotated]) simp
    then show ?thesis by simp
  next
    case False
    then show ?thesis using klo assms(2) by simp
  qed
  have "(2::real) ^ (k + t) = 2 ^ (k + t - j) * 2 ^ j"
    using jk by (simp flip: power_add)
  then have eq: "x / (1 / (2 ^ k * 2 ^ t)) = real (n * 2 ^ (k + t - j))"
    by (simp add: x_def power_add field_simps)
  have "ulp_of t lo hi x = 1 / (2 ^ k * 2 ^ t)"
    using False by (simp add: ulp_of_def x_def k_def)
  then have "x / ulp_of t lo hi x = real (n * 2 ^ (k + t - j))"
    using eq by (simp only:)
  then show ?thesis
    unfolding x_def by (rule exI)
qed

lemma round_bin_exact:
  assumes "n < 2 ^ (t + 1)" and "j \<le> lo + t" and "t \<le> hi"
  shows "round_bin t lo hi (real n / 2 ^ j) = Fin (real n / 2 ^ j)"
proof -
  define x where "x = real n / 2 ^ j"
  define u where "u = ulp_of t lo hi x"
  have u: "0 < u"
    unfolding u_def by (rule ulp_of_pos)
  obtain m :: nat where m: "x / u = real m"
    using ulp_divides [OF assms(1,2), of hi] unfolding x_def u_def by blast
  from m have "x = real m * u"
    using u by (simp add: field_simps)
  then have r: "of_int (round_even (x / u)) * u = x"
    using m by (simp add: round_even_of_nat)
  have "x \<le> real n"
    unfolding x_def by (simp add: field_simps mult_le_cancel_left1)
  also have "\<dots> < 2 ^ (t + 1)"
    using assms(1) by (metis of_nat_less_iff of_nat_numeral of_nat_power)
  also have "\<dots> \<le> (2::real) ^ (hi + 1)"
    using assms(3) by (intro power_increasing) simp_all
  finally have "x < 2 ^ (hi + 1)" .
  moreover have "0 \<le> x"
    by (simp add: x_def)
  ultimately show ?thesis
    using r unfolding round_bin_unfold Let_def x_def [symmetric] u_def [symmetric]
    by (simp add: abs_of_nonneg u_def)
qed

lemma round32_exact:
  "n < 2 ^ 24 \<Longrightarrow> j \<le> 149 \<Longrightarrow> round32 (real n / 2 ^ j) = Fin (real n / 2 ^ j)"
  unfolding round32_def by (rule round_bin_exact) simp_all


lemma signed_inf_not_Fin [simp]: "signed_inf b \<noteq> Fin v"
  by (cases b) simp_all







subsection \<open>Regression and trend\<close>

lemma lr_loop_5:
  "lr_loop x y 5 =
     lr_step x y (lr_step x y (lr_step x y (lr_step x y (lr_step x y
       \<lparr> xbar = Fin 0, ybar = Fin 0, xybar = Fin 0, xsqbar = Fin 0 \<rparr> 0) 1) 2) 3) 4"
  by (simp add: lr_loop_def upt_rec eval_nat_numeral)

text \<open>
  \<open>simpLinReg\<close> leaves the least-squares slope in \<open>lrCoef[0]\<close> and the intercept in
  \<open>lrCoef[1]\<close>: on five values of 0.5 the pair is \<open>(0, 0.5)\<close>, and on the values
  0.25, 0.5, 0.75, 1, 1.25, where no operation rounds, it is \<open>(0.25, 0)\<close>.
\<close>

lemma simpLinReg_flat:
  "simpLinReg trend_array_x (trend_array_y flat_cells) 5 = (Fin 0, Fin (1 / 2))"
  by (simp add: simpLinReg_def lr_loop_5 lr_step_def trend_array_x_def trend_array_y_def
      trend_array_y_index_def flat_cells_def f_sub_def float_eval)

lemma simpLinReg_rising:
  "simpLinReg trend_array_x [Fin (1 / 4), Fin (1 / 2), Fin (3 / 4), Fin 1, Fin (5 / 4)] 5
     = (Fin (1 / 4), Fin 0) \<and>
   ols_slope [1, 2, 3, 4, 5] [1 / 4, 1 / 2, 3 / 4, 1, 5 / 4] = 1 / 4"
  by (simp add: simpLinReg_def lr_loop_5 lr_step_def trend_array_x_def f_sub_def float_eval
      ols_slope_def mean_of_def)

text \<open>
  On the floats nearest to 0.2, 0.3, 0.4, 0.5 and 0.6 the slope in \<open>lrCoef[0]\<close> is 0.1
  within \<open>10 ^ -6\<close>, and so is the intercept in \<open>lrCoef[1]\<close>: on this example the
  two cannot be told apart.
\<close>

lemma simpLinReg_spec_example:
  "simpLinReg trend_array_x
     [round32 (2 / 10), round32 (3 / 10), round32 (4 / 10), round32 (5 / 10), round32 (6 / 10)] 5
     = (Fin (1677721 / 16777216), Fin (3355447 / 33554432)) \<and>
   \<bar>1677721 / 16777216 - 1 / 10\<bar> < (1 / 10 ^ 6 :: real) \<and>
   \<bar>3355447 / 33554432 - 1 / 10\<bar> < (1 / 10 ^ 6 :: real)"
  by (simp add: simpLinReg_def lr_loop_5 lr_step_def trend_array_x_def f_sub_def float_eval)

lemma spec_trend_flat: "spec_trend (map the_real (history_window flat_cells)) = 0"
  by (simp add: flat_cells_def spec_trend_def ols_slope_def mean_of_def
      history_window_def pastArray_len_def upt_rec)

text \<open>
  C1. The claim: the reported trend is the least-squares slope through the last five
  entries of the 14-slot window, and the screen shows that slope times 100.
  The sketch takes \<open>lrCoef[1]\<close>, the intercept, under the comment "the trend is the
  slop of the resulting equation", and fits cells 10 to 14. On a history that is flat
  at 0.5 (the cell behind the array holding 0.5 as well) the slope is 0, and the sketch
  reports 0.5 and shows 50.
\<close>

theorem trend_is_intercept_at_flat_history:
  "loop_trend flat_cells = Fin (1 / 2) \<and>
   trend_rendered flat_cells = Fin 50 \<and>
   spec_trend (map the_real (history_window flat_cells)) = 0"
  by (simp add: loop_trend_def trend_rendered_def simpLinReg_flat spec_trend_flat float_eval)

text \<open>
  C5. The claim: the estimator reads the last five entries of the window and no cell
  outside slots 0 to 13. The sketch reads \<open>pastArray[14]\<close> and does not read
  \<open>pastArray[9]\<close>: changing the cell behind the array changes the trend of an
  unchanged window.
\<close>

theorem trend_reads_behind_pastArray:
  "14 \<in> set trend_array_y_index \<and> \<not> 14 < pastArray_len \<and> 9 \<notin> set trend_array_y_index \<and>
   history_window (zero_cells(14 := Fin 1)) = history_window zero_cells \<and>
   loop_trend (zero_cells(14 := Fin 1)) \<noteq> loop_trend zero_cells"
  by (simp add: loop_trend_def simpLinReg_def lr_loop_5 lr_step_def trend_array_x_def
      trend_array_y_def trend_array_y_index_def zero_cells_def f_sub_def float_eval
      history_window_def pastArray_len_def upt_rec)

subsection \<open>Values of type float\<close>









text \<open>The difference of two floats, as the sketch computes it.\<close>

lemma f_sub_Fin: "f_sub (Fin a) (Fin b) = round32 (a - b)"
  by (simp add: f_sub_def)




subsection \<open>The index calculator\<close>




subsection \<open>The severity classifier\<close>

text \<open>The two thresholds, and the floats nearest to the decimal numbers of the claim.\<close>

lemma double_thresholds:
  "round64 (33 / 100) = Fin (5944751508129055 / 18014398509481984)"
  "round64 (66 / 100) = Fin (5944751508129055 / 9007199254740992)"
  by (simp_all add: float_eval)

lemma float_decimals:
  "round32 (33 / 100) = Fin (11072963 / 33554432)"
  "round32 (34 / 100) = Fin (11408507 / 33554432)"
  "round32 (66 / 100) = Fin (11072963 / 16777216)"
  by (simp_all add: float_eval)

text \<open>
  A float is a multiple of the distance between the floats of its size: of \<open>2 ^ -25\<close>
  between 0.25 and 0.5 and of \<open>2 ^ -24\<close> between 0.5 and 1. So no float lies between
  0.33 and the float above it, nor between 0.66 and the float above it.
\<close>

lemma float_multiple_of_ulp:
  assumes "is_float32 v"
  shows "\<exists>z::int. v = of_int z * ulp_of 23 126 127 \<bar>v\<bar>"
proof -
  define z where "z = round_even (v / ulp_of 23 126 127 \<bar>v\<bar>)"
  have "v = of_int z * ulp_of 23 126 127 \<bar>v\<bar>"
    using assms unfolding is_float32_def round32_def round_bin_unfold Let_def z_def [symmetric]
    by (auto split: if_splits)
  then show ?thesis by (rule exI)
qed

lemma float_in_quarter:
  assumes "is_float32 v" and "1 / 4 \<le> v" and "v < 1 / 2"
  shows "\<exists>z::int. v = of_int z / 33554432"
proof -
  have "exp_down 126 v 0 = exp_down 126 v (Suc 0)"
    using assms(2,3) by (subst exp_down.simps) simp
  also have "\<dots> = exp_down 126 v (Suc (Suc 0))"
    using assms(2,3) by (subst exp_down.simps) simp
  also have "\<dots> = 2"
    using assms(2,3) by (subst exp_down.simps) simp
  finally have "exp_down 126 v 0 = 2" .
  then have u: "ulp_of 23 126 127 \<bar>v\<bar> = 1 / 33554432"
    using assms(2,3) by (simp add: ulp_of_def)
  obtain z :: int where "v = of_int z * ulp_of 23 126 127 \<bar>v\<bar>"
    using float_multiple_of_ulp [OF assms(1)] by blast
  then have "v = of_int z / 33554432"
    unfolding u by simp
  then show ?thesis by (rule exI)
qed

lemma float_in_half:
  assumes "is_float32 v" and "1 / 2 \<le> v" and "v < 1"
  shows "\<exists>z::int. v = of_int z / 16777216"
proof -
  have "exp_down 126 v 0 = exp_down 126 v (Suc 0)"
    using assms(2,3) by (subst exp_down.simps) simp
  also have "\<dots> = 1"
    using assms(2,3) by (subst exp_down.simps) simp
  finally have "exp_down 126 v 0 = 1" .
  then have u: "ulp_of 23 126 127 \<bar>v\<bar> = 1 / 16777216"
    using assms(2,3) by (simp add: ulp_of_def)
  obtain z :: int where "v = of_int z * ulp_of 23 126 127 \<bar>v\<bar>"
    using float_multiple_of_ulp [OF assms(1)] by blast
  then have "v = of_int z / 16777216"
    unfolding u by simp
  then show ?thesis by (rule exI)
qed

lemma float_above_33:
  assumes "is_float32 v" and "33 / 100 < v"
  shows "11072963 / 33554432 \<le> v"
proof (cases "v < 1 / 2")
  case True
  then obtain z :: int where z: "v = of_int z / 33554432"
    using float_in_quarter [OF assms(1)] assms(2) by fastforce
  have "real_of_int 1107296256 < real_of_int (z * 100)"
    using assms(2) unfolding z by simp
  then have "1107296256 < z * 100"
    by (simp only: of_int_less_iff)
  then have "11072963 \<le> z"
    by simp
  then have "real_of_int 11072963 \<le> real_of_int z"
    by (simp only: of_int_le_iff)
  then show ?thesis
    unfolding z by simp
next
  case False
  then show ?thesis by simp
qed

lemma float_from_66:
  assumes "is_float32 v" and "66 / 100 \<le> v"
  shows "11072963 / 16777216 \<le> v"
proof (cases "v < 1")
  case True
  then obtain z :: int where z: "v = of_int z / 16777216"
    using float_in_half [OF assms(1)] assms(2) by fastforce
  have "real_of_int 1107296256 \<le> real_of_int (z * 100)"
    using assms(2) unfolding z by simp
  then have "1107296256 \<le> z * 100"
    by (simp only: of_int_le_iff)
  then have "11072963 \<le> z"
    by simp
  then have "real_of_int 11072963 \<le> real_of_int z"
    by (simp only: of_int_le_iff)
  then show ?thesis
    unfolding z by simp
next
  case False
  then show ?thesis by simp
qed

lemma traffic_light_Fin:
  "traffic_light (Fin v) =
     (if v \<le> 5944751508129055 / 18014398509481984 then Low
      else if v < 5944751508129055 / 9007199254740992 then Medium else High)"
  unfolding traffic_light_def double_thresholds f_gt_def by simp

text \<open>
  C9, as stated: an index of 0.33 gives Low. A frame with the mean 26.5, the minimum 10
  and the maximum 60 has the index \<open>16.5 / 50 = 0.33\<close>; the sketch computes the float
  nearest to it, which is greater than the double 0.33 of the comparison, and lights
  the second pixel.
\<close>

theorem index_033_is_Medium:
  "(53 / 2 - 10) / (60 - 10) = (33 / 100 :: real) \<and>
   cwsi_calc (Fin (53 / 2)) (Fin 10) (Fin 60) = round32 (33 / 100) \<and>
   traffic_light (cwsi_calc (Fin (53 / 2)) (Fin 10) (Fin 60)) = Medium"
  by (simp add: cwsi_calc_def f_sub_Fin traffic_light_Fin float_eval)

text \<open>
  C9, amended. For every index that is a float, the band follows the inequalities on
  its value exactly: at most 0.33 gives Low, strictly between 0.33 and 0.66 gives
  Medium, at least 0.66 gives High. No float equals one of the three decimal numbers:
  the floats nearest to 0.33, 0.34 and 0.66 give Medium, Medium and High. A positive
  infinity and a NaN give High, a negative infinity Low. The band is a function of the
  index alone, and it is what the indicator shows after the sample of a cycle.
\<close>

theorem traffic_light_float_bands:
  assumes "is_float32 v"
  shows "(v \<le> 33 / 100 \<longrightarrow> traffic_light (Fin v) = Low) \<and>
         (33 / 100 < v \<and> v < 66 / 100 \<longrightarrow> traffic_light (Fin v) = Medium) \<and>
         (66 / 100 \<le> v \<longrightarrow> traffic_light (Fin v) = High) \<and>
         \<not> is_float32 (33 / 100) \<and> \<not> is_float32 (34 / 100) \<and> \<not> is_float32 (66 / 100) \<and>
         traffic_light (round32 (33 / 100)) = Medium \<and>
         traffic_light (round32 (34 / 100)) = Medium \<and>
         traffic_light (round32 (66 / 100)) = High \<and>
         traffic_light PInf = High \<and> traffic_light NaN = High \<and> traffic_light NInf = Low \<and>
         strip (sample_and_log inp st) = Some (traffic_light (cwsi (sample_and_log inp st)))"
proof -
  have low: "traffic_light (Fin v) = Low" if "v \<le> 33 / 100"
    using that by (simp add: traffic_light_Fin)
  have medium: "traffic_light (Fin v) = Medium" if "33 / 100 < v \<and> v < 66 / 100"
    using that float_above_33 [OF assms] by (simp add: traffic_light_Fin)
  have high: "traffic_light (Fin v) = High" if "66 / 100 \<le> v"
    using that float_from_66 [OF assms] by (simp add: traffic_light_Fin)
  have decimals: "\<not> is_float32 (33 / 100) \<and> \<not> is_float32 (34 / 100) \<and> \<not> is_float32 (66 / 100)"
    unfolding is_float32_def float_decimals by simp
  have nearest: "traffic_light (round32 (33 / 100)) = Medium \<and>
      traffic_light (round32 (34 / 100)) = Medium \<and> traffic_light (round32 (66 / 100)) = High"
    unfolding float_decimals traffic_light_Fin by simp
  have special: "traffic_light PInf = High \<and> traffic_light NaN = High \<and> traffic_light NInf = Low"
    unfolding traffic_light_def double_thresholds f_gt_def by simp
  have shown: "strip (sample_and_log inp st) = Some (traffic_light (cwsi (sample_and_log inp st)))"
    by (simp add: sample_and_log_def Let_def)
  show ?thesis
    using low medium high decimals nearest special shown by blast
qed

theorem traffic_light_float_bands_witness:
  "is_float32 (1 / 4) \<and> (1 / 4 :: real) \<le> 33 / 100 \<and> traffic_light (Fin (1 / 4)) = Low \<and>
   is_float32 (1 / 2) \<and> (33 / 100 :: real) < 1 / 2 \<and> (1 / 2 :: real) < 66 / 100 \<and>
   traffic_light (Fin (1 / 2)) = Medium \<and>
   is_float32 (3 / 4) \<and> (66 / 100 :: real) \<le> 3 / 4 \<and> traffic_light (Fin (3 / 4)) = High"
proof -
  have f: "is_float32 (1 / 4)" "is_float32 (1 / 2)" "is_float32 (3 / 4)"
    by (simp_all add: is_float32_def float_eval)
  show ?thesis
    using traffic_light_float_bands [OF f(1)] traffic_light_float_bands [OF f(2)]
      traffic_light_float_bands [OF f(3)] f
    by simp
qed

subsection \<open>The characters and the length of a log line\<close>

lemma is_digit_digit_char: "is_digit (digit_char d)"
proof -
  have "\<forall>k<10. is_digit (''0123456789'' ! k)"
    by (simp add: All_less_Suc eval_nat_numeral is_digit_def digit_of_def)
  then show ?thesis by (simp add: digit_char_def)
qed

lemma not_digit_ne_digit_char: "\<not> is_digit c \<Longrightarrow> c \<noteq> digit_char d"
  using is_digit_digit_char [of d] by auto

lemma not_digit_ne_zero: "\<not> is_digit c \<Longrightarrow> c \<noteq> CHR ''0''"
  by (auto simp: is_digit_def digit_of_def)

lemma not_in_dec: "\<not> is_digit c \<Longrightarrow> c \<notin> set (dec n)"
proof (induction n rule: dec.induct)
  case (1 n)
  show ?case
  proof (cases "n < 10")
    case True
    then have "dec n = [digit_char n]" by (subst dec.simps) simp
    then show ?thesis using not_digit_ne_digit_char [OF 1(2)] by simp
  next
    case False
    then have "dec n = dec (n div 10) @ [digit_char (n mod 10)]" by (subst dec.simps) simp
    then show ?thesis using 1 False not_digit_ne_digit_char [OF 1(2)] by simp
  qed
qed

lemma dec_length: "0 < k \<Longrightarrow> n < 10 ^ k \<Longrightarrow> length (dec n) \<le> k"
proof (induction n arbitrary: k rule: dec.induct)
  case (1 n)
  show ?case
  proof (cases "n < 10")
    case True
    then have "dec n = [digit_char n]" by (subst dec.simps) simp
    then show ?thesis using 1(2) by simp
  next
    case False
    then have unfold: "dec n = dec (n div 10) @ [digit_char (n mod 10)]"
      by (subst dec.simps) simp
    obtain j where k: "k = Suc j" using 1(2) by (cases k) auto
    have "0 < j" using False 1(3) k by (cases j) auto
    moreover have "n div 10 < 10 ^ j"
      using 1(3) k by (simp add: less_mult_imp_div_less mult.commute)
    ultimately have "length (dec (n div 10)) \<le> j" using 1(1) False by simp
    then show ?thesis using unfold k by simp
  qed
qed

lemma pad0_length: "length s \<le> w \<Longrightarrow> length (pad0 w s) = w"
  by (simp add: pad0_def)

lemma not_in_pad0: "c \<noteq> CHR ''0'' \<Longrightarrow> c \<notin> set s \<Longrightarrow> c \<notin> set (pad0 w s)"
  by (simp add: pad0_def)

lemma fmt_d_length: "0 < w \<Longrightarrow> n < 10 ^ w \<Longrightarrow> length (fmt_d w n) = w"
  by (simp add: fmt_d_def pad0_length dec_length)

lemma not_in_fmt_d: "\<not> is_digit c \<Longrightarrow> c \<notin> set (fmt_d w n)"
  by (simp add: fmt_d_def not_in_pad0 not_in_dec not_digit_ne_zero)

lemma not_in_String_f:
  "\<not> is_digit c \<Longrightarrow> c \<notin> set ''.-naif'' \<Longrightarrow> c \<notin> set (String_f v)"
proof (cases v)
  case (Fin r)
  assume "\<not> is_digit c" and "c \<notin> set ''.-naif''"
  then show ?thesis
    using Fin by (simp add: String_f_def Let_def not_in_dec not_digit_ne_digit_char)
qed (auto simp: String_f_def)

text \<open>The characters that separate the fields of a line.\<close>

lemma not_in_timeStamp:
  "\<not> is_digit c \<Longrightarrow> c \<notin> set ''.-:'' \<Longrightarrow> c \<notin> set (timeStamp t)"
  by (simp add: timeStamp_def not_in_fmt_d)

lemma not_in_datalog_fields:
  assumes "\<not> is_digit c" and "c \<notin> set ''.-:,naif''"
  shows "c \<notin> set (butlast (datalog_line s))"
proof -
  have "c \<notin> set (timeStamp (stamp s))"
    using assms by (simp add: not_in_timeStamp)
  moreover have "c \<notin> set (pad0 w (String_f v))" for w v
    using assms by (simp add: not_in_pad0 not_in_String_f not_digit_ne_zero)
  ultimately show ?thesis
    using assms by (simp add: datalog_line_def butlast_append)
qed

lemma datalog_line_fields: "datalog_line s = butlast (datalog_line s) @ [newline]"
  by (simp add: datalog_line_def butlast_append)

lemma newline_not_in_datalog_fields: "newline \<notin> set (butlast (datalog_line s))"
  by (rule not_in_datalog_fields) (simp_all add: is_digit_def digit_of_def newline_def)

lemma xyz_not_in_datalog_line: "xyz \<notin> set (datalog_line s)"
proof -
  have "xyz \<notin> set (butlast (datalog_line s))"
    by (rule not_in_datalog_fields) (simp_all add: is_digit_def digit_of_def xyz_def)
  then have "xyz \<notin> set (butlast (datalog_line s) @ [newline])"
    by (simp add: xyz_def newline_def)
  then show ?thesis using datalog_line_fields [of s] by simp
qed

lemma timeStamp_length:
  "year t + 2000 < 10000 \<Longrightarrow> month t < 100 \<Longrightarrow> dayOfMonth t < 100 \<Longrightarrow> hour t < 100 \<Longrightarrow>
   minute t < 100 \<Longrightarrow> second t < 100 \<Longrightarrow> length (timeStamp t) = 19"
  by (simp add: timeStamp_def fmt_d_length)

lemma datalog_line_length: "fixed_width s \<Longrightarrow> length (datalog_line s) = 43"
  by (simp add: datalog_line_def fixed_width_def timeStamp_length pad0_length)

text \<open>The index field of a line is what \<open>get_cwsi_data\<close> cuts out of it.\<close>

lemma datalog_line_index:
  assumes "fixed_width s"
  shows "substring 20 24 (butlast (datalog_line s)) = pad0 4 (String_f (index s))"
proof -
  have ts: "length (timeStamp (stamp s)) = 19"
    using assms by (simp add: fixed_width_def timeStamp_length)
  have ix: "length (pad0 4 (String_f (index s))) = 4"
    using assms by (simp add: fixed_width_def pad0_length)
  have "43 = length (datalog_line s)"
    using assms by (simp add: datalog_line_length)
  then have len: "length (butlast (datalog_line s)) = 42"
    by simp
  show ?thesis
    using ts ix len by (simp add: substring_def datalog_line_def butlast_append)
qed

subsection \<open>The event log and its row count\<close>

lemma readStringUntil_all: "t \<notin> set s \<Longrightarrow> readStringUntil t s = (s, [])"
proof -
  assume "t \<notin> set s"
  then have all: "\<forall>c\<in>set s. c \<noteq> t" by auto
  then have tw: "takeWhile (\<lambda>c. c \<noteq> t) s = s" and dw: "dropWhile (\<lambda>c. c \<noteq> t) s = []"
    by simp_all
  show ?thesis unfolding readStringUntil_def tw dw by simp
qed


lemma count_word:
  assumes "43 * k < (2::nat) ^ 32"
  shows "sint (((of_nat (31 + 43 * k) :: 32 word) - 31) div 43) = int k"
proof -
  define w :: "32 word" where "w = of_nat (31 + 43 * k) - 31"
  have "w = of_nat (43 * k)" by (simp add: w_def)
  then have "unat w = (43 * k) mod 2 ^ LENGTH(32)" by (simp only: unat_of_nat)
  then have uw: "unat w = 43 * k" using assms by simp
  have "unat (w div 43) = unat w div unat (43 :: 32 word)" by (rule unat_div)
  then have ud: "unat (w div 43) = k" using uw by simp
  have "k < 2 ^ 31" using assms by simp
  then have "signed_take_bit 31 (int k) = int k"
    by (intro signed_take_bit_int_eq_self) simp_all
  then have "sint (w div 43) = int k"
    using ud by (simp add: sint_uint uint_nat)
  then show ?thesis by (simp add: w_def)
qed


lemma log_of_rows_fresh: "log_of_rows fresh_card 0"
  by (simp add: log_of_rows_def fresh_card_def datalog_header_def xyz_def newline_def)


lemma log_of_rows_append:
  "log_of_rows sdc k \<Longrightarrow> fixed_width s \<Longrightarrow> log_of_rows (append_sample sdc s) (Suc k)"
  by (auto simp: log_of_rows_def append_sample_def datalog_append_def appended_def
      datalog_line_length xyz_not_in_datalog_line split: option.splits)


lemma log_of_rows_foldl:
  "log_of_rows sdc k \<Longrightarrow> \<forall>s\<in>set samples. fixed_width s \<Longrightarrow>
   log_of_rows (foldl append_sample sdc samples) (k + length samples)"
proof (induction samples arbitrary: sdc k)
  case Nil
  then show ?case by simp
next
  case (Cons s samples)
  have "log_of_rows (append_sample sdc s) (Suc k)"
    using Cons.prems by (simp add: log_of_rows_append)
  then have "log_of_rows (foldl append_sample (append_sample sdc s) samples) (Suc k + length samples)"
    using Cons.prems by (intro Cons.IH) simp_all
  then show ?case by simp
qed


lemma number_of_logs_rows:
  assumes "log_of_rows sdc k" and "43 * k < (2::nat) ^ 32"
  shows "number_of_logs sdc = int k"
proof -
  obtain stream where s: "datalog sdc = Some stream" "length stream = 31 + 43 * k"
    "xyz \<notin> set stream" and m: "mounted sdc"
    using assms(1) by (auto simp: log_of_rows_def split: option.splits)
  have "file_data sdc datalog = stream"
    using s m by (simp add: file_data_def open_read_def readStringUntil_all)
  then show ?thesis
    using s(2) count_word [OF assms(2)] by (simp add: number_of_logs_def string_length_def)
qed

text \<open>
  C6. Appending \<open>N\<close> fixed-width sample records to the event log that holds the
  header only makes the row count, computed as (length - 31) / 43 on the text of the
  file, equal to \<open>N\<close>. The length of the text is a 32-bit number, so the file is
  taken to be shorter than \<open>2^32\<close> bytes.
\<close>

theorem number_of_logs_after_appends:
  assumes "\<forall>s\<in>set samples. fixed_width s" and "43 * length samples < (2::nat) ^ 32"
  shows "number_of_logs (foldl append_sample fresh_card samples) = int (length samples)"
proof -
  have "log_of_rows (foldl append_sample fresh_card samples) (0 + length samples)"
    using log_of_rows_fresh assms(1) by (rule log_of_rows_foldl)
  then show ?thesis using assms(2) by (simp add: number_of_logs_rows)
qed


lemma fixed_width_samples: "fixed_width sample_a" "fixed_width sample_b"
  by (simp_all add: fixed_width_def sample_a_def sample_b_def noon_def String_f_def Let_def
      dec.simps digit_char_def)


theorem number_of_logs_after_appends_witness:
  "fixed_width sample_a \<and> fixed_width sample_b \<and>
   43 * length [sample_a, sample_b] < (2::nat) ^ 32 \<and>
   number_of_logs (foldl append_sample fresh_card [sample_a, sample_b]) = 2"
proof -
  have fw: "\<forall>s\<in>set [sample_a, sample_b]. fixed_width s"
    by (simp add: fixed_width_samples)
  have len: "43 * length [sample_a, sample_b] < (2::nat) ^ 32"
    by simp
  show ?thesis
    using fixed_width_samples len number_of_logs_after_appends [OF fw len] by simp
qed


subsection \<open>Start-up\<close>

text \<open>
  C7. The claim: when the storage is unavailable at start-up the process halts and no
  sample cycle is executed. When \<open>SD.begin()\<close> fails, \<open>setup\<close> prints
  \<^verbatim>\<open>Card Mount Failed\<close> and returns; the state is untouched, \<open>start_token\<close> is still 1,
  and the first call of \<open>loop\<close> runs a full cycle, at any value of \<open>millis()\<close>.
  A missing camera, a few lines above, does halt in \<^verbatim>\<open>while (1);\<close>.
\<close>

theorem setup_returns_without_sd:
  "setup_sketch boot_without_sd (initial_state unmounted_card) = Returned (initial_state unmounted_card) \<and>
   cycle_due currentMillis (initial_state unmounted_card) \<and>
   loop currentMillis inp (initial_state unmounted_card)
     = cycle currentMillis inp ((initial_state unmounted_card)\<lparr> start_token := 0 \<rparr>) \<and>
   setup_sketch boot_without_camera (initial_state unmounted_card) = Halted"
  by (simp add: setup_sketch_def boot_without_sd_def boot_without_camera_def loop_def cycle_due_def
      initial_state_def)

subsection \<open>A cycle whose frame reads fail\<close>




text \<open>
  The frame loop adds to the console and to the time waited, and nothing after it reads
  those two.
\<close>

lemma foldl_frame_read:
  "foldl frame_read st xs
     = st\<lparr> serial_errors := serial_errors st @ filter (\<lambda>s. s < 0) xs,
           delay_ms := delay_ms st + 2000 * length (filter (\<lambda>s. s < 0) xs) \<rparr>"
  by (induction xs arbitrary: st) (simp_all add: frame_read_def)

lemma accumulate_console:
  "accumulate (st\<lparr> serial_errors := e, delay_ms := d \<rparr>) t
     = (accumulate st t)\<lparr> serial_errors := e, delay_ms := d \<rparr>"
  by (simp add: accumulate_def)

lemma foldl_accumulate_console:
  "foldl accumulate (st\<lparr> serial_errors := e, delay_ms := d \<rparr>) ts
     = (foldl accumulate st ts)\<lparr> serial_errors := e, delay_ms := d \<rparr>"
  by (induction ts arbitrary: st) (simp_all add: accumulate_console)

lemma read_temperatures_console:
  "read_temperatures ts (st\<lparr> serial_errors := e, delay_ms := d \<rparr>)
     = (read_temperatures ts st)\<lparr> serial_errors := e, delay_ms := d \<rparr>"
  by (simp add: read_temperatures_def Let_def foldl_accumulate_console)

lemma foldl_accumulate_sd: "sd (foldl accumulate st ts) = sd st"
  by (induction ts arbitrary: st) (simp_all add: accumulate_def)

lemma read_temperatures_sd: "sd (read_temperatures ts st) = sd st"
  by (simp add: read_temperatures_def Let_def foldl_accumulate_sd)














subsection \<open>The first cycle without a card\<close>

text \<open>
  On the card that never got mounted, the first cycle takes its sample, sets the
  indicator and writes nothing; it then calls \<open>get_first_log_date\<close>, where the file
  does not open and the function ends without a \<open>return\<close>.
\<close>

lemma sample_and_log_unmounted:
  "\<not> mounted (sd st) \<Longrightarrow> sd (sample_and_log inp st) = sd st"
  by (simp add: sample_and_log_def frame_loop_def foldl_frame_read Let_def append_sample_def
      datalog_append_def read_temperatures_console read_temperatures_sd)

lemma first_cycle_without_sd:
  "cycle currentMillis inp ((initial_state unmounted_card)\<lparr> start_token := 0 \<rparr>)
     = Inl (No_return_value,
            sample_and_log inp ((initial_state unmounted_card)\<lparr> start_token := 0 \<rparr>)) \<and>
   sd (sample_and_log inp ((initial_state unmounted_card)\<lparr> start_token := 0 \<rparr>)) = unmounted_card \<and>
   strip (sample_and_log inp ((initial_state unmounted_card)\<lparr> start_token := 0 \<rparr>)) \<noteq> None"
proof -
  let ?st = "(initial_state unmounted_card)\<lparr> start_token := 0 \<rparr>"
  have "\<not> mounted (sd ?st)"
    by (simp add: initial_state_def unmounted_card_def)
  then have "sd (sample_and_log inp ?st) = sd ?st"
    by (rule sample_and_log_unmounted)
  then have s: "sd (sample_and_log inp ?st) = unmounted_card"
    by (simp add: initial_state_def)
  have "get_first_log_date unmounted_card = None"
    by (simp add: get_first_log_date_def open_read_def unmounted_card_def)
  then have "cycle currentMillis inp ?st = Inl (No_return_value, sample_and_log inp ?st)"
    by (simp add: cycle_def Let_def s)
  moreover have "strip (sample_and_log inp ?st) \<noteq> None"
    by (simp add: sample_and_log_def Let_def)
  ultimately show ?thesis
    using s by simp
qed

subsection \<open>The history array\<close>

lemma number_of_daily_logs_examples:
  "number_of_daily_logs one_day_card = 2" "number_of_daily_logs fourteen_days_card = 16"
  by (simp_all add: number_of_daily_logs_def file_data_def open_read_def one_day_card_def
      fourteen_days_card_def dailylog_header_def readStringUntil_def xyz_def newline_def
      string_length_def)

lemma one_day_rows:
  "get_daily_cwsi_data one_day_card 0 = Some (''wsi'' @ [CHR 0x0D])"
  "get_daily_cwsi_data one_day_card 1 = Some ''0.45''"
  by (simp_all add: get_daily_cwsi_data_def open_read_def one_day_card_def dailylog_header_def
      row_loop.simps readStringUntil_def newline_def substring_def)

lemma fourteen_days_rows:
  "get_daily_cwsi_data fourteen_days_card 2 = Some ''0.02''"
  "get_daily_cwsi_data fourteen_days_card 3 = Some ''0.03''"
  "get_daily_cwsi_data fourteen_days_card 4 = Some ''0.04''"
  "get_daily_cwsi_data fourteen_days_card 5 = Some ''0.05''"
  "get_daily_cwsi_data fourteen_days_card 6 = Some ''0.06''"
  "get_daily_cwsi_data fourteen_days_card 7 = Some ''0.07''"
  "get_daily_cwsi_data fourteen_days_card 8 = Some ''0.08''"
  "get_daily_cwsi_data fourteen_days_card 9 = Some ''0.09''"
  "get_daily_cwsi_data fourteen_days_card 10 = Some ''0.10''"
  "get_daily_cwsi_data fourteen_days_card 11 = Some ''0.11''"
  "get_daily_cwsi_data fourteen_days_card 12 = Some ''0.12''"
  "get_daily_cwsi_data fourteen_days_card 13 = Some ''0.13''"
  "get_daily_cwsi_data fourteen_days_card 14 = Some ''0.14''"
  "get_daily_cwsi_data fourteen_days_card 15 = None"
  by (simp_all add: get_daily_cwsi_data_def open_read_def fourteen_days_card_def dailylog_header_def
      row_loop.simps readStringUntil_def newline_def substring_def)

lemma history_cells_one_day:
  "history_cells one_day_card zero_cells = Inr (zero_cells(13 := Fin 0, 14 := round32 (45 / 100)))"
proof -
  have "fill_loop 0 12 0 = 13"
    by (simp add: fill_loop.simps)
  moreover have "toFloat (''wsi'' @ [CHR 0x0D]) = Fin 0" "toFloat ''0.45'' = round32 (45 / 100)"
    by (simp_all add: toFloat_def isspace_def is_digit_def digit_of_def digits_value_def)
  ultimately show ?thesis
    by (simp add: history_cells_def number_of_daily_logs_examples Let_def history_loop.simps
        one_day_rows del: append.simps)
qed

lemma history_cells_fourteen_days:
  "history_cells fourteen_days_card m = Inl No_return_value"
  by (simp add: history_cells_def number_of_daily_logs_examples Let_def history_loop.simps
      fourteen_days_rows)

text \<open>
  C4. The claim: the extractor fills the 14 slots, oldest first, with the last
  \<open>min(14, recordCount)\<close> daily means, the leading slots holding a sentinel.
  With one record (mean 0.45) in the daily log the sketch counts 2 rows (32 bytes
  divided by 15, header included), advances 13 slots, stores the header row, read as
  0, in slot 13 and the record, the float nearest to 0.45, in \<open>pastArray[14]\<close>,
  behind the array: the window holds zeros only. With fourteen records it counts 16
  rows and asks for row 15, which the file does not have.
\<close>

theorem history_misses_latest_record:
  "history_cells one_day_card zero_cells = Inr (zero_cells(13 := Fin 0, 14 := round32 (45 / 100))) \<and>
   round32 (45 / 100) = Fin (15099494 / 33554432) \<and>
   history_window (zero_cells(13 := Fin 0, 14 := round32 (45 / 100))) = replicate 14 (Fin 0) \<and>
   number_of_daily_logs one_day_card = 2 \<and>
   number_of_daily_logs fourteen_days_card = 16 \<and>
   history_cells fourteen_days_card zero_cells = Inl No_return_value"
proof -
  have "history_window (zero_cells(13 := Fin 0, 14 := round32 (45 / 100))) = replicate 14 (Fin 0)"
    by (simp add: history_window_def pastArray_len_def zero_cells_def upt_rec eval_nat_numeral)
  moreover have "round32 (45 / 100) = Fin (15099494 / 33554432)"
    by (simp add: float_eval)
  ultimately show ?thesis
    using history_cells_one_day history_cells_fourteen_days number_of_daily_logs_examples
    by simp
qed

text \<open>
  C10. The claim: on every daily log, running the extractor twice without a change of
  the log gives the same 14-slot window both times. On the log of fourteen records,
  the state a device reaches after two weeks, the extractor counts 16 rows and calls
  \<open>get_daily_cwsi_data(15)\<close>; the file has the rows 0 to 14, the call ends without a
  \<open>return\<close>, and no run of the extractor yields a window, whatever the array holds
  before.
\<close>

theorem history_extract_stops_at_fourteen_records:
  "number_of_daily_logs fourteen_days_card = 16 \<and>
   get_daily_cwsi_data fourteen_days_card 14 = Some ''0.14'' \<and>
   get_daily_cwsi_data fourteen_days_card 15 = None \<and>
   history_extract (initial_state fourteen_days_card) = Inl No_return_value \<and>
   history_extract ((initial_state fourteen_days_card)\<lparr> pastArray := flat_cells \<rparr>)
     = Inl No_return_value"
  by (simp add: number_of_daily_logs_examples fourteen_days_rows history_extract_def
      initial_state_def history_cells_fourteen_days)

text \<open>
  On a log from which the extractor returns, a second run repeats the stores of the
  first and leaves the cells as they are.
\<close>

lemma fill_loop_count: "i \<le> missing_values + 1 \<Longrightarrow> fill_loop i missing_values d = d + (missing_values + 1 - i)"
proof (induction i missing_values d rule: fill_loop.induct)
  case (1 i missing_values daily_count)
  show ?case
  proof (cases "i \<le> missing_values")
    case True
    then show ?thesis using 1 by (subst fill_loop.simps) simp
  next
    case False
    then show ?thesis using 1(2) by (subst fill_loop.simps) simp
  qed
qed

text \<open>The cells after the loop are the cells before it with a list of stores applied.\<close>

lemma history_loop_stores:
  "history_loop sdc i n d m = Inr m1 \<Longrightarrow>
   \<exists>ws. \<forall>m'. history_loop sdc i n d m' = Inr (foldl (\<lambda>a (k, v). a(k := v)) m' ws)"
proof (induction sdc i n d m rule: history_loop.induct)
  case (1 sdc i n d m)
  show ?case
  proof (cases "i < n")
    case False
    then have "\<forall>m'. history_loop sdc i n d m' = Inr (foldl (\<lambda>a (k, v). a(k := v)) m' [])"
      by (simp add: history_loop.simps)
    then show ?thesis by blast
  next
    case True
    then obtain s where s: "get_daily_cwsi_data sdc i = Some s"
      using 1(2) by (cases "get_daily_cwsi_data sdc i") (simp_all add: history_loop.simps)
    then have "history_loop sdc (i + 1) n (d + 1) (m(nat d := toFloat s)) = Inr m1"
      using 1(2) True by (simp add: history_loop.simps)
    then obtain ws where ws: "\<forall>m'. history_loop sdc (i + 1) n (d + 1) m'
                                  = Inr (foldl (\<lambda>a (k, v). a(k := v)) m' ws)"
      using 1(1) [OF True s] by blast
    have "\<forall>m'. history_loop sdc i n d m'
               = Inr (foldl (\<lambda>a (k, v). a(k := v)) m' ((nat d, toFloat s) # ws))"
      using True s ws by (simp add: history_loop.simps [of sdc i n d])
    then show ?thesis by blast
  qed
qed

lemma history_loop_fault:
  "history_loop sdc i n d m = Inl f \<Longrightarrow> history_loop sdc i n d m' = Inl f"
proof (induction sdc i n d m arbitrary: m' rule: history_loop.induct)
  case (1 sdc i n d m)
  show ?case
  proof (cases "i < n")
    case False
    then show ?thesis using 1(2) by (simp add: history_loop.simps)
  next
    case True
    show ?thesis
    proof (cases "get_daily_cwsi_data sdc i")
      case None
      then show ?thesis using True 1(2) by (simp add: history_loop.simps [of sdc i n d])
    next
      case (Some s)
      then have "history_loop sdc (i + 1) n (d + 1) (m(nat d := toFloat s)) = Inl f"
        using 1(2) True by (simp add: history_loop.simps [of sdc i n d])
      then have "history_loop sdc (i + 1) n (d + 1) (m'(nat d := toFloat s)) = Inl f"
        by (rule 1(1) [OF True Some])
      then show ?thesis using True Some by (simp add: history_loop.simps [of sdc i n d])
    qed
  qed
qed

lemma stores_outside:
  "j \<notin> fst ` set ws \<Longrightarrow> foldl (\<lambda>a (k, v). a(k := v)) m ws j = m j"
proof (induction ws rule: rev_induct)
  case Nil
  show ?case by simp
next
  case (snoc x ws)
  obtain k v where x: "x = (k, v)" by (cases x)
  from snoc.prems x have "j \<noteq> k" and "j \<notin> fst ` set ws" by auto
  then show ?case using snoc.IH x by simp
qed

lemma stores_inside:
  "j \<in> fst ` set ws \<Longrightarrow>
   foldl (\<lambda>a (k, v). a(k := v)) m ws j = foldl (\<lambda>a (k, v). a(k := v)) m' ws j"
proof (induction ws rule: rev_induct)
  case Nil
  then show ?case by simp
next
  case (snoc x ws)
  obtain k v where x: "x = (k, v)" by (cases x)
  show ?case
  proof (cases "j = k")
    case True
    then show ?thesis using x by simp
  next
    case False
    then have "j \<in> fst ` set ws" using snoc.prems x by auto
    then show ?thesis using snoc.IH x False by simp
  qed
qed

lemma stores_twice:
  "foldl (\<lambda>a (k, v). a(k := v)) (foldl (\<lambda>a (k, v). a(k := v)) m ws) ws
     = foldl (\<lambda>a (k, v). a(k := v)) m ws"
proof (rule ext)
  fix j
  show "foldl (\<lambda>a (k, v). a(k := v)) (foldl (\<lambda>a (k, v). a(k := v)) m ws) ws j
          = foldl (\<lambda>a (k, v). a(k := v)) m ws j"
  proof (cases "j \<in> fst ` set ws")
    case True
    then show ?thesis by (rule stores_inside)
  next
    case False
    then show ?thesis by (rule stores_outside)
  qed
qed


lemma history_cells_twice:
  "history_cells sdc m = Inr m1 \<Longrightarrow> history_cells sdc m1 = Inr m1"
proof -
  assume a: "history_cells sdc m = Inr m1"
  define n where "n = number_of_daily_logs sdc"
  define b where "b = (if 14 \<le> n then n - 14 else 0)"
  define d where "d = (if n < 14 then fill_loop 0 (14 - n) 0 else 0)"
  have eq: "history_cells sdc x = history_loop sdc b n d x" for x
    by (simp add: history_cells_def Let_def n_def b_def d_def)
  then obtain ws where ws: "\<forall>m'. history_loop sdc b n d m' = Inr (foldl (\<lambda>a (k, v). a(k := v)) m' ws)"
    using a history_loop_stores [of sdc b n d m m1] by auto
  then have "m1 = foldl (\<lambda>a (k, v). a(k := v)) m ws"
    using a eq by simp
  then show ?thesis using ws eq by (simp add: stores_twice)
qed

subsection \<open>Reading rows of the event log\<close>

lemma readStringUntil_line:
  "t \<notin> set l \<Longrightarrow> readStringUntil t (l @ t # rest) = (l, rest)"
proof -
  assume "t \<notin> set l"
  then have all: "\<And>c. c \<in> set l \<Longrightarrow> c \<noteq> t" by auto
  have "takeWhile (\<lambda>c. c \<noteq> t) (l @ t # rest) = l"
    using all by (simp add: takeWhile_append2)
  moreover have "dropWhile (\<lambda>c. c \<noteq> t) (l @ t # rest) = t # rest"
    using all by (simp add: dropWhile_append2)
  ultimately show ?thesis by (simp add: readStringUntil_def)
qed

lemma row_loop_hit:
  "newline \<notin> set l \<Longrightarrow> row_loop (l @ newline # rest) r r a b = Some (substring a b l)"
  by (subst row_loop.simps) (simp add: readStringUntil_line)

lemma row_loop_skip:
  "newline \<notin> set l \<Longrightarrow> c \<noteq> r \<Longrightarrow>
   row_loop (l @ newline # rest) c r a b = row_loop rest (c + 1) r a b"
  by (subst row_loop.simps) (simp add: readStringUntil_line)

lemma row_loop_rows:
  "c \<le> r \<Longrightarrow> r < c + int (length ss) \<Longrightarrow>
   row_loop (concat (map datalog_line ss)) c r a b
     = Some (substring a b (butlast (datalog_line (ss ! nat (r - c)))))"
proof (induction ss arbitrary: c)
  case Nil
  then show ?case by simp
next
  case (Cons s ss)
  have first: "concat (map datalog_line (s # ss))
                = butlast (datalog_line s) @ newline # concat (map datalog_line ss)"
    using datalog_line_fields [of s] by simp
  show ?case
  proof (cases "c = r")
    case True
    then show ?thesis
      unfolding first by (simp add: row_loop_hit newline_not_in_datalog_fields)
  next
    case False
    then have "c + 1 \<le> r" and "r < (c + 1) + int (length ss)"
      using Cons.prems by simp_all
    then have "row_loop (concat (map datalog_line ss)) (c + 1) r a b
                 = Some (substring a b (butlast (datalog_line (ss ! nat (r - (c + 1))))))"
      by (rule Cons.IH)
    moreover have "(s # ss) ! nat (r - c) = ss ! nat (r - (c + 1))"
    proof -
      have "nat (r - c) = Suc (nat (r - (c + 1)))"
        using \<open>c + 1 \<le> r\<close> by simp
      then show ?thesis by simp
    qed
    ultimately show ?thesis
      unfolding first using False by (simp add: row_loop_skip newline_not_in_datalog_fields)
  qed
qed

text \<open>A card whose event log is the header followed by the lines of the samples \<open>ss\<close>.\<close>

lemma append_samples_card:
  "mounted sdc \<Longrightarrow> datalog sdc = Some h \<Longrightarrow>
   mounted (foldl append_sample sdc ss) \<and>
   datalog (foldl append_sample sdc ss) = Some (h @ concat (map datalog_line ss)) \<and>
   dailylog (foldl append_sample sdc ss) = dailylog sdc"
proof (induction ss arbitrary: sdc h)
  case Nil
  then show ?case by simp
next
  case (Cons s ss)
  have "mounted (append_sample sdc s)"
    and "datalog (append_sample sdc s) = Some (h @ datalog_line s)"
    and "dailylog (append_sample sdc s) = dailylog sdc"
    using Cons.prems by (simp_all add: append_sample_def datalog_append_def appended_def)
  then show ?case
    using Cons.IH [of "append_sample sdc s" "h @ datalog_line s"] by simp
qed

lemma get_cwsi_data_rows:
  assumes "mounted sdc" and "datalog sdc = Some (datalog_header @ concat (map datalog_line ss))"
    and "1 \<le> x" and "x \<le> int (length ss)"
  shows "get_cwsi_data sdc x = Some (substring 20 24 (butlast (datalog_line (ss ! nat (x - 1)))))"
proof -
  have "newline \<notin> set ''datetime,Tmax,Tmin,Tmean,cwsi,''"
    by (simp add: newline_def)
  then have "row_loop (''datetime,Tmax,Tmin,Tmean,cwsi,'' @ newline # concat (map datalog_line ss))
                0 x 20 24
               = row_loop (concat (map datalog_line ss)) (0 + 1) x 20 24"
    using assms(3) by (intro row_loop_skip) simp_all
  then have "row_loop (datalog_header @ concat (map datalog_line ss)) 0 x 20 24
          = row_loop (concat (map datalog_line ss)) (0 + 1) x 20 24"
    by (simp add: datalog_header_def)
  also have "\<dots> = Some (substring 20 24 (butlast (datalog_line (ss ! nat (x - 1)))))"
    using assms(3,4) row_loop_rows [of 1 x ss 20 24] by simp
  finally show ?thesis
    using assms(1,2) by (simp add: get_cwsi_data_def open_read_def)
qed

lemma today_loop_rows:
  "(\<And>x. a \<le> x \<Longrightarrow> x < b \<Longrightarrow> get_cwsi_data sdc x = Some (g x)) \<Longrightarrow>
   today_loop sdc a b acc = Inr (acc @ map (\<lambda>x. toFloat (g x)) [a..b - 1])"
proof (induction sdc a b acc rule: today_loop.induct)
  case (1 sdc x stop cwsi_today)
  show ?case
  proof (cases "x < stop")
    case False
    then show ?thesis by (subst today_loop.simps) simp
  next
    case True
    have here: "get_cwsi_data sdc x = Some (g x)"
      using True 1(2) by simp
    have "today_loop sdc (x + 1) stop (cwsi_today @ [toFloat (g x)])
            = Inr ((cwsi_today @ [toFloat (g x)]) @ map (\<lambda>x. toFloat (g x)) [x + 1..stop - 1])"
      using 1(2) by (intro 1(1) [OF True here]) simp_all
    moreover have "[x..stop - 1] = x # [x + 1..stop - 1]"
      using True by (simp add: upto_rec1)
    ultimately show ?thesis
      using True here by (subst today_loop.simps) simp
  qed
qed


subsection \<open>The daily mean and the daily record\<close>

text \<open>
  \<open>get_daily_cwsi_mean\<close> with its arithmetic carried out: with \<open>n\<close> rows counted in
  the event log and \<open>k\<close> the number of cycles since 06:00 according to the clock, it
  averages the rows \<open>n - k\<close> to \<open>n - 1\<close> and writes a daily record when \<open>k = 48\<close>.
\<close>

lemma get_daily_cwsi_mean_unfold:
  "get_daily_cwsi_mean t st =
     (if 0 \<le> log_cycles_today t - 24 \<and> log_cycles_today t - 24 \<le> 48 then
        (case today_loop (sd st) (number_of_logs (sd st) - (log_cycles_today t - 24))
                 (number_of_logs (sd st)) [] of
           Inl f \<Rightarrow> (f, st)
         | Inr cwsi_today \<Rightarrow>
             (if log_cycles_today t - 24 = 48 then
                (Buffer_overrun,
                 st\<lparr> mean_cwsi := f_div (foldl f_add (Fin 0) cwsi_today) (Fin 48),
                     sd := dailylog_append (sd st)
                             (dailylog_line t (f_div (foldl f_add (Fin 0) cwsi_today) (Fin 48))) \<rparr>)
              else
                (No_return_value,
                 st\<lparr> mean_cwsi := f_div (foldl f_add (Fin 0) cwsi_today)
                                      (Fin (real_of_int (log_cycles_today t - 24))) \<rparr>)))
      else (No_return_value, st))"
proof -
  define n where "n = number_of_logs (sd st)"
  define c where "c = log_cycles_today t"
  have a: "n - c + 6 * 4 = n - (c - 24)"
    by simp
  have b: "n - c + 6 * 4 + (n - c + c - (n - c + 6 * 4)) = n"
    by simp
  have k: "n - c + c - (n - c + 6 * 4) = c - 24"
    by simp
  show ?thesis
    unfolding get_daily_cwsi_mean_def Let_def n_def [symmetric] c_def [symmetric] a b k
    by (auto split: sum.splits)
qed

text \<open>
  The card is written only when the clock gives 72 cycles for the day, that is from
  18:00 to 18:14, whatever the event log holds.
\<close>

lemma daily_record_needs_clock:
  "log_cycles_today t \<noteq> 72 \<Longrightarrow> sd (snd (get_daily_cwsi_mean t st)) = sd st"
  unfolding get_daily_cwsi_mean_unfold by (simp split: sum.splits)

lemma today_loop_card:
  assumes "mounted sdc" and "datalog sdc = Some (datalog_header @ concat (map datalog_line ss))"
    and "\<forall>s\<in>set ss. fixed_width s" and "1 \<le> a" and "b \<le> int (length ss) + 1"
  shows "today_loop sdc a b []
           = Inr (map (\<lambda>x. toFloat (pad0 4 (String_f (index (ss ! nat (x - 1)))))) [a..b - 1])"
proof -
  have "get_cwsi_data sdc x = Some (pad0 4 (String_f (index (ss ! nat (x - 1)))))"
    if "a \<le> x" and "x < b" for x
  proof -
    have range: "1 \<le> x" "x \<le> int (length ss)"
      using that assms(4,5) by simp_all
    then have "nat (x - 1) < length ss"
      by simp
    then have "fixed_width (ss ! nat (x - 1))"
      using assms(3) by simp
    then show ?thesis
      using get_cwsi_data_rows [OF assms(1,2) range] by (simp add: datalog_line_index)
  qed
  then have "today_loop sdc a b []
               = Inr ([] @ map (\<lambda>x. toFloat (pad0 4 (String_f (index (ss ! nat (x - 1)))))) [a..b - 1])"
    by (rule today_loop_rows)
  then show ?thesis by simp
qed

text \<open>Sums of halves below \<open>2 ^ 23\<close> are exact in float arithmetic.\<close>

lemma foldl_f_add_half:
  "m + length xs < 2 ^ 24 \<Longrightarrow>
   foldl f_add (Fin (real m / 2)) (map (\<lambda>_. Fin (1 / 2)) xs) = Fin (real (m + length xs) / 2)"
proof (induction xs arbitrary: m)
  case Nil
  then show ?case by simp
next
  case (Cons x xs)
  have e: "real m / 2 + 1 / 2 = real (Suc m) / 2 ^ 1"
    by (simp add: field_simps)
  have "round32 (real (Suc m) / 2 ^ 1) = Fin (real (Suc m) / 2 ^ 1)"
    using Cons.prems by (intro round32_exact) simp_all
  then have "round32 (real m / 2 + 1 / 2) = Fin (real (Suc m) / 2 ^ 1)"
    by (simp only: e)
  then have "f_add (Fin (real m / 2)) (Fin (1 / 2)) = Fin (real (Suc m) / 2)"
    by (simp only: f_add.simps power_one_right)
  then show ?case
    using Cons.IH [of "Suc m"] Cons.prems by simp
qed

text \<open>The card of the restart.\<close>

lemma fixed_width_yesterday: "k < 48 \<Longrightarrow> fixed_width (yesterday_sample k)"
proof -
  assume "k < 48"
  then have "k div 4 < 100" and "15 * (k mod 4) < 100"
    by simp_all
  then show ?thesis
    by (simp add: fixed_width_def yesterday_sample_def String_f_def Let_def dec.simps)
qed

lemma fixed_width_restart: "fixed_width (restart_sample evening)"
  by (simp add: fixed_width_def restart_sample_def evening_def String_f_def Let_def dec.simps)

lemma restart_samples_facts:
  assumes "fixed_width (restart_sample t)"
  shows "\<forall>s\<in>set (restart_samples t). fixed_width s"
    and "\<forall>k<48. index (restart_samples t ! k) = Fin (1 / 2)"
    and "length (restart_samples t) = 49"
proof -
  show "\<forall>s\<in>set (restart_samples t). fixed_width s"
    using assms by (auto simp: restart_samples_def fixed_width_yesterday)
  show "\<forall>k<48. index (restart_samples t ! k) = Fin (1 / 2)"
    by (simp add: restart_samples_def yesterday_sample_def nth_append)
  show "length (restart_samples t) = 49"
    by (simp add: restart_samples_def)
qed

lemma restart_card_files:
  "mounted (restart_card t)"
  "datalog (restart_card t) = Some (datalog_header @ concat (map datalog_line (restart_samples t)))"
  "dailylog (restart_card t) = Some dailylog_header"
  using append_samples_card [of fresh_card datalog_header "restart_samples t"]
  by (simp_all add: restart_card_def fresh_card_def)

lemma restart_card_rows:
  assumes "fixed_width (restart_sample t)"
  shows "number_of_logs (restart_card t) = 49"
proof -
  have "log_of_rows (foldl append_sample fresh_card (restart_samples t))
          (0 + length (restart_samples t))"
    using log_of_rows_fresh restart_samples_facts(1) [OF assms] by (rule log_of_rows_foldl)
  then have "log_of_rows (restart_card t) 49"
    by (simp add: restart_card_def restart_samples_facts(3) [OF assms])
  then show ?thesis
    by (simp add: number_of_logs_rows)
qed

lemma restart_today_loop:
  assumes "fixed_width (restart_sample t)" and "1 \<le> a"
  shows "today_loop (restart_card t) a 49 [] = Inr (map (\<lambda>_. Fin (1 / 2)) [a..48])"
proof -
  have half: "toFloat (pad0 4 (String_f (Fin (1 / 2)))) = Fin (1 / 2)"
    by (simp add: String_f_def Let_def dec.simps digit_char_def pad0_def toFloat_def isspace_def
        is_digit_def digit_of_def digits_value_def float_eval)
  have "today_loop (restart_card t) a 49 []
          = Inr (map (\<lambda>x. toFloat (pad0 4 (String_f (index (restart_samples t ! nat (x - 1))))))
                   [a..49 - 1])"
    using restart_card_files(1,2) restart_samples_facts(1) [OF assms(1)] assms(2)
    by (rule today_loop_card) (simp add: restart_samples_facts(3) [OF assms(1)])
  moreover have "map (\<lambda>x. toFloat (pad0 4 (String_f (index (restart_samples t ! nat (x - 1))))))
                   [a..49 - 1] = map (\<lambda>_. Fin (1 / 2)) [a..48]"
  proof -
    have "index (restart_samples t ! nat (x - 1)) = Fin (1 / 2)" if "x \<in> set [a..48]" for x
    proof -
      have "1 \<le> x" and "x \<le> 48"
        using that assms(2) by simp_all
      then have "nat (x - 1) < 48"
        by linarith
      then show ?thesis
        using restart_samples_facts(2) [OF assms(1)] by simp
    qed
    then show ?thesis by (simp add: half)
  qed
  ultimately show ?thesis by simp
qed

lemma restart_evening:
  assumes "sd st = restart_card evening"
  shows "get_daily_cwsi_mean evening st
           = (Buffer_overrun,
              st\<lparr> mean_cwsi := Fin (1 / 2),
                  sd := dailylog_append (restart_card evening) (''2022.08.31,0.50'' @ [newline]) \<rparr>)"
proof -
  have c: "log_cycles_today evening = 72"
    by (simp add: log_cycles_today_def evening_def)
  have n: "number_of_logs (restart_card evening) = 49"
    by (simp add: restart_card_rows fixed_width_restart)
  have l: "today_loop (restart_card evening) 1 49 [] = Inr (map (\<lambda>_. Fin (1 / 2)) [1..48])"
    by (simp add: restart_today_loop fixed_width_restart)
  have "foldl f_add (Fin (real 0 / 2)) (map (\<lambda>_. Fin (1 / 2)) [1..48::int])
          = Fin (real (0 + length [1..48::int]) / 2)"
    by (rule foldl_f_add_half) simp
  then have s: "foldl f_add (Fin 0) (map (\<lambda>_. Fin (1 / 2)) [1..48::int]) = Fin 24"
    by simp
  have m: "f_div (Fin 24) (Fin 48) = Fin (1 / 2)"
    by (simp add: float_eval)
  have d: "dailylog_line evening (Fin (1 / 2)) = ''2022.08.31,0.50'' @ [newline]"
    by (simp add: dailylog_line_def dateStamp_def evening_def fmt_d_def pad0_def String_f_def
        Let_def dec.simps digit_char_def)
  show ?thesis
    unfolding get_daily_cwsi_mean_unfold by (simp add: c n l s m d assms del: f_div.simps)
qed

text \<open>The rows of the restart card that fall into the window of 31 August.\<close>

lemma log_lines_line:
  "newline \<notin> set l \<Longrightarrow> log_lines (l @ newline # rest) = l # log_lines rest"
  by (subst log_lines.simps) (simp add: readStringUntil_line)

lemma log_lines_rows:
  "log_lines (concat (map datalog_line ss)) = map (\<lambda>s. butlast (datalog_line s)) ss"
proof (induction ss)
  case Nil
  show ?case by (subst log_lines.simps) simp
next
  case (Cons s ss)
  have first: "concat (map datalog_line (s # ss))
          = butlast (datalog_line s) @ newline # concat (map datalog_line ss)"
    using datalog_line_fields [of s] by simp
  show ?case
    unfolding first using Cons.IH by (simp add: log_lines_line newline_not_in_datalog_fields)
qed

lemma restart_card_lines:
  assumes "fixed_width (restart_sample t)"
  shows "drop 1 (log_lines (file_data (restart_card t) datalog))
           = map (\<lambda>s. butlast (datalog_line s)) (restart_samples t)"
proof -
  let ?rows = "concat (map datalog_line (restart_samples t))"
  have "xyz \<notin> set datalog_header"
    by (simp add: datalog_header_def xyz_def newline_def)
  moreover have "xyz \<notin> set ?rows"
    by (simp add: xyz_not_in_datalog_line)
  ultimately have "file_data (restart_card t) datalog = datalog_header @ ?rows"
    by (simp add: file_data_def open_read_def restart_card_files readStringUntil_all)
  moreover have "newline \<notin> set ''datetime,Tmax,Tmin,Tmean,cwsi,''"
    by (simp add: newline_def)
  then have "log_lines (''datetime,Tmax,Tmin,Tmean,cwsi,'' @ newline # ?rows)
               = ''datetime,Tmax,Tmin,Tmean,cwsi,'' # log_lines ?rows"
    by (rule log_lines_line)
  then have "log_lines (datalog_header @ ?rows) = ''datetime,Tmax,Tmin,Tmean,cwsi,'' # log_lines ?rows"
    by (simp add: datalog_header_def)
  ultimately show ?thesis
    by (simp add: log_lines_rows)
qed

lemma datalog_fields_split:
  "butlast (datalog_line s)
     = dateStamp (stamp s) @ ''-'' @ fmt_d 2 (hour (stamp s)) @ '':''
         @ fmt_d 2 (minute (stamp s)) @ '':'' @ fmt_d 2 (second (stamp s)) @ '',''
         @ pad0 4 (String_f (index s)) @ '','' @ pad0 5 (String_f (Tmax s)) @ '',''
         @ pad0 5 (String_f (Tmin s)) @ '','' @ pad0 5 (String_f (Tmean s))"
  by (simp add: datalog_line_def timeStamp_def dateStamp_def butlast_append)

lemma dateStamp_length:
  "fixed_width s \<Longrightarrow> length (dateStamp (stamp s)) = 10"
  by (simp add: dateStamp_def fixed_width_def fmt_d_length)

lemma datalog_line_date:
  "fixed_width s \<Longrightarrow> take 10 (butlast (datalog_line s)) = dateStamp (stamp s)"
  by (simp add: datalog_fields_split dateStamp_length)

lemma datalog_line_hour:
  assumes "fixed_width s"
  shows "substring 11 13 (butlast (datalog_line s)) = fmt_d 2 (hour (stamp s))"
proof -
  have "length (fmt_d 2 (hour (stamp s))) = 2"
    using assms by (simp add: fixed_width_def fmt_d_length)
  then show ?thesis
    using assms by (simp add: datalog_fields_split dateStamp_length substring_def)
qed

lemma restart_evening_window: "samples_in_window evening (restart_card evening) = 0"
proof -
  have today: "dateStamp evening = ''2022.08.31''"
    by (simp add: dateStamp_def evening_def fmt_d_def pad0_def dec.simps digit_char_def)
  have "\<not> row_in_window evening (butlast (datalog_line s))"
    if "s \<in> set (restart_samples evening)" for s
  proof -
    from that have "(\<exists>k<48. s = yesterday_sample k) \<or> s = restart_sample evening"
      by (auto simp: restart_samples_def)
    then consider k where "k < 48" "s = yesterday_sample k" | "s = restart_sample evening"
      by blast
    then show ?thesis
    proof cases
      case 1
      have "dateStamp (stamp (yesterday_sample k)) = ''2022.08.30''"
        by (simp add: dateStamp_def yesterday_sample_def fmt_d_def pad0_def dec.simps digit_char_def)
      then show ?thesis
        using 1 by (simp add: row_in_window_def datalog_line_date fixed_width_yesterday today)
    next
      case 2
      have "fmt_d 2 (hour (stamp (restart_sample evening))) = ''18''"
        by (simp add: restart_sample_def evening_def fmt_d_def pad0_def dec.simps digit_char_def)
      then have "digits_value (substring 11 13 (butlast (datalog_line s))) = 18"
        using 2 by (simp add: datalog_line_hour fixed_width_restart digits_value_def digit_of_def)
      then show ?thesis
        by (simp add: row_in_window_def)
    qed
  qed
  then have "filter (row_in_window evening)
               (map (\<lambda>s. butlast (datalog_line s)) (restart_samples evening)) = []"
    by (simp add: filter_empty_conv)
  then show ?thesis
    unfolding samples_in_window_def restart_card_lines [OF fixed_width_restart(1)] by simp
qed

text \<open>
  C3. The claim: a daily record is appended if and only if 48 samples of the day were
  observed inside the window from 06:00 to 18:00. The sketch means to average the
  readings of the day (comment: "get all CWSI recordings of today after 6am and before
  6pm") and to write the record for a full window (comment: "if
  number_of_todays_relevant_logs == 48 write to daily average log file"), but it
  derives that number from the clock and takes the rows by their position in the
  event log. After a restart at 18:05 on 31 August, with 48 samples of 30 August and
  the sample of the restart (index 0.25) in the log, no row of the log lies in the
  window of the day; the call computes the mean of the 48 rows of 30 August and
  appends the record \<open>2022.08.31,0.50\<close>.
\<close>

theorem daily_record_without_window_samples:
  "samples_in_window evening (restart_card evening) = 0 \<and>
   dailylog (restart_card evening) = Some dailylog_header \<and>
   get_daily_cwsi_mean evening (initial_state (restart_card evening))
     = (Buffer_overrun,
        (initial_state (restart_card evening))
          \<lparr> mean_cwsi := Fin (1 / 2),
            sd := dailylog_append (restart_card evening) (''2022.08.31,0.50'' @ [newline]) \<rparr>) \<and>
   dailylog (dailylog_append (restart_card evening) (''2022.08.31,0.50'' @ [newline]))
     = Some (dailylog_header @ ''2022.08.31,0.50'' @ [newline])"
proof -
  have "sd (initial_state (restart_card evening)) = restart_card evening"
    by (simp add: initial_state_def)
  then have "get_daily_cwsi_mean evening (initial_state (restart_card evening))
     = (Buffer_overrun,
        (initial_state (restart_card evening))
          \<lparr> mean_cwsi := Fin (1 / 2),
            sd := dailylog_append (restart_card evening) (''2022.08.31,0.50'' @ [newline]) \<rparr>)"
    by (rule restart_evening)
  then show ?thesis
    using restart_evening_window
    by (simp add: restart_card_files dailylog_append_def appended_def)
qed

end
